theory Spec2Isabelle
  imports Complex_Main "HOL-Library.AList"
begin

section \<open>JavaScript numbers\<close>

text \<open>
  A JavaScript \<open>number\<close> is a finite value, one of the two infinities, or NaN.
  \<open>Fin r\<close> stands for the finite double of value \<open>r\<close>: rounding, overflow of
  finite arithmetic to an infinity and the sign of zero are not modelled.  The
  operations follow IEEE 754 on the non-finite values: every comparison with NaN is
  false, \<open>Infinity - Infinity\<close> and \<open>0 * Infinity\<close> are NaN, and
  \<open>Math.hypot\<close> returns \<open>Infinity\<close> as soon as one argument is infinite.
\<close>

datatype jsnum = Fin real | PInf | NInf | NaN

fun js_neg :: "jsnum \<Rightarrow> jsnum" where
  "js_neg (Fin a) = Fin (- a)"
| "js_neg PInf = NInf"
| "js_neg NInf = PInf"
| "js_neg NaN = NaN"

fun js_add :: "jsnum \<Rightarrow> jsnum \<Rightarrow> jsnum" where
  "js_add NaN b = NaN"
| "js_add (Fin a) NaN = NaN"
| "js_add PInf NaN = NaN"
| "js_add NInf NaN = NaN"
| "js_add (Fin a) (Fin b) = Fin (a + b)"
| "js_add (Fin a) PInf = PInf"
| "js_add (Fin a) NInf = NInf"
| "js_add PInf (Fin b) = PInf"
| "js_add PInf PInf = PInf"
| "js_add PInf NInf = NaN"
| "js_add NInf (Fin b) = NInf"
| "js_add NInf NInf = NInf"
| "js_add NInf PInf = NaN"

definition js_sub :: "jsnum \<Rightarrow> jsnum \<Rightarrow> jsnum" where
  "js_sub a b = js_add a (js_neg b)"

fun is_negative :: "jsnum \<Rightarrow> bool" where
  "is_negative (Fin a) = (a < 0)"
| "is_negative NInf = True"
| "is_negative PInf = False"
| "is_negative NaN = False"

fun js_mul :: "jsnum \<Rightarrow> jsnum \<Rightarrow> jsnum" where
  "js_mul (Fin a) (Fin b) = Fin (a * b)"
| "js_mul a b =
     (if a = NaN \<or> b = NaN \<or> a = Fin 0 \<or> b = Fin 0 then NaN
      else if is_negative a = is_negative b then PInf else NInf)"

fun js_lt :: "jsnum \<Rightarrow> jsnum \<Rightarrow> bool" where
  "js_lt (Fin a) (Fin b) = (a < b)"
| "js_lt (Fin a) PInf = True"
| "js_lt NInf (Fin b) = True"
| "js_lt NInf PInf = True"
| "js_lt a b = False"

definition js_gt :: "jsnum \<Rightarrow> jsnum \<Rightarrow> bool" where
  "js_gt a b = js_lt b a"

text \<open>\<open>Math.max(a, b)\<close>: NaN if either argument is NaN.\<close>

definition js_max :: "jsnum \<Rightarrow> jsnum \<Rightarrow> jsnum" where
  "js_max a b = (if a = NaN \<or> b = NaN then NaN else if js_lt a b then b else a)"

definition is_infinite :: "jsnum \<Rightarrow> bool" where
  "is_infinite a = (a = PInf \<or> a = NInf)"

definition isFinite :: "jsnum \<Rightarrow> bool" where
  "isFinite a = (case a of Fin r \<Rightarrow> True | PInf \<Rightarrow> False | NInf \<Rightarrow> False | NaN \<Rightarrow> False)"

text \<open>\<open>Math.hypot(a, b)\<close>.\<close>

fun js_hypot :: "jsnum \<Rightarrow> jsnum \<Rightarrow> jsnum" where
  "js_hypot (Fin a) (Fin b) = Fin (sqrt (a * a + b * b))"
| "js_hypot a b = (if is_infinite a \<or> is_infinite b then PInf else NaN)"


section \<open>Data model (types.ts)\<close>

record Point =
  p_x :: jsnum
  p_y :: jsnum

text \<open>
  \<open>DetectedBlob\<close>.  The optional fields \<open>visualX?\<close> and \<open>visualY?\<close> are
  \<open>None\<close> while undefined.  Ids come from the counter \<open>nextBlobId\<close>, which
  starts at 1 and is only incremented, so they are natural numbers (the counter is a
  double, exact up to \<open>2^53\<close>, which no run reaches); \<open>lastSeen\<close> holds a value of
  \<open>Date.now()\<close>, an integer count of milliseconds.
\<close>

record DetectedBlob =
  b_id :: nat
  b_x :: jsnum
  b_y :: jsnum
  b_w :: jsnum
  b_h :: jsnum
  b_area :: jsnum
  b_history :: "Point list"
  b_lastSeen :: int
  b_visualX :: "jsnum option"
  b_visualY :: "jsnum option"

text \<open>
  The entries of \<open>currentFrameBlobs\<close> (\<open>Partial<DetectedBlob>\<close> with exactly the
  fields \<open>x, y, w, h, area\<close> set).
\<close>

record Candidate =
  c_x :: jsnum
  c_y :: jsnum
  c_w :: jsnum
  c_h :: jsnum
  c_area :: jsnum

text \<open>
  The fields of \<open>TrackerSettings\<close> read by the tracker and by the smoother.
  (\<open>threshold\<close> and \<open>blurSize\<close> are consumed by the OpenCV calls, the display
  toggles and colours by the drawing code.)
\<close>

record TrackerSettings =
  minArea :: jsnum
  historyLength :: jsnum
  jitter :: jsnum
  drift :: jsnum

text \<open>
  What the OpenCV pipeline hands to step 3 of \<open>processFrame\<close> for one contour:
  \<open>cv.contourArea\<close> (a finite double) and \<open>cv.boundingRect\<close> (integers).
\<close>

record Contour =
  ct_area :: real
  rect_x :: int
  rect_y :: int
  rect_width :: int
  rect_height :: int


section \<open>The tracker (services/cvProcessor.ts)\<close>

definition MAX_TRACKING_DISTANCE_BASE :: real where
  "MAX_TRACKING_DISTANCE_BASE = 100"

definition BLOB_TIMEOUT :: int where
  "BLOB_TIMEOUT = 500"

text \<open>
  The tracking state of a \<open>CVProcessor\<close>.  \<open>activeBlobs\<close> is a JavaScript
  \<open>Map\<close>: it iterates in insertion order, and \<open>set\<close> on a present key keeps
  the key's place, which is what \<open>AList.update\<close> does on an association list.
\<close>

record CVProcessor =
  nextBlobId :: nat
  activeBlobs :: "(nat \<times> DetectedBlob) list"

definition newCVProcessor :: CVProcessor where
  "newCVProcessor = \<lparr>nextBlobId = 1, activeBlobs = []\<rparr>"

text \<open>
  The exceptions of the model: the TypeError of a property read on \<open>undefined\<close>,
  and the NotSupportedError the \<open>MediaRecorder\<close> constructor throws for a MIME type
  it does not support.
\<close>

datatype error = TypeError | NotSupportedError

subsection \<open>Step 3: extract and scale\<close>

definition realArea :: "jsnum \<Rightarrow> Contour \<Rightarrow> jsnum" where
  "realArea scaleFactor contour = js_mul (Fin (ct_area contour)) (js_mul scaleFactor scaleFactor)"

definition toCandidate :: "jsnum \<Rightarrow> Contour \<Rightarrow> Candidate" where
  "toCandidate scaleFactor contour =
     \<lparr>c_x = js_mul (Fin (real_of_int (rect_x contour) + real_of_int (rect_width contour) / 2)) scaleFactor,
      c_y = js_mul (Fin (real_of_int (rect_y contour) + real_of_int (rect_height contour) / 2)) scaleFactor,
      c_w = js_mul (Fin (real_of_int (rect_width contour))) scaleFactor,
      c_h = js_mul (Fin (real_of_int (rect_height contour))) scaleFactor,
      c_area = realArea scaleFactor contour\<rparr>"

text \<open>
  The extraction loop (lines 130 to 154).  (The constant \<open>minAreaScaled\<close> computed
  before the loop is never read.)
\<close>

fun extractBlobs :: "TrackerSettings \<Rightarrow> jsnum \<Rightarrow> Contour list \<Rightarrow> Candidate list" where
  "extractBlobs settings scaleFactor [] = []"
| "extractBlobs settings scaleFactor (contour # rest) =
     (if js_gt (realArea scaleFactor contour) (minArea settings)
      then toCandidate scaleFactor contour # extractBlobs settings scaleFactor rest
      else extractBlobs settings scaleFactor rest)"

subsection \<open>Step 4: tracking\<close>

text \<open>The locals of one tracking pass, next to the processor's state.\<close>

record Pass =
  proc :: CVProcessor
  assignedIds :: "nat set"
  trackedBlobs :: "DetectedBlob list"

definition distTo :: "Candidate \<Rightarrow> DetectedBlob \<Rightarrow> jsnum" where
  "distTo newBlob existingBlob =
     js_hypot (js_sub (c_x newBlob) (b_x existingBlob)) (js_sub (c_y newBlob) (b_y existingBlob))"

text \<open>
  The inner \<open>activeBlobs.forEach\<close> (lines 166 to 174): the pair is
  \<open>(closestId, minDist)\<close>, with \<open>None\<close> for the initial \<open>closestId = -1\<close> (no id
  is negative).
\<close>

fun findClosest ::
  "Candidate \<Rightarrow> nat set \<Rightarrow> (nat \<times> DetectedBlob) list \<Rightarrow> nat option \<times> jsnum \<Rightarrow> nat option \<times> jsnum"
where
  "findClosest newBlob assigned [] acc = acc"
| "findClosest newBlob assigned ((id', existingBlob) # rest) (closestId, minDist) =
     (if id' \<in> assigned then findClosest newBlob assigned rest (closestId, minDist)
      else if js_lt (distTo newBlob existingBlob) minDist
        then findClosest newBlob assigned rest (Some id', distTo newBlob existingBlob)
        else findClosest newBlob assigned rest (closestId, minDist))"

definition pushHistory :: "TrackerSettings \<Rightarrow> DetectedBlob \<Rightarrow> Point list" where
  "pushHistory settings existing =
     (let history = b_history existing @ [\<lparr>p_x = b_x existing, p_y = b_y existing\<rparr>]
      in if js_gt (Fin (real (length history))) (historyLength settings) then tl history else history)"

definition updatedBlob :: "TrackerSettings \<Rightarrow> int \<Rightarrow> DetectedBlob \<Rightarrow> Candidate \<Rightarrow> DetectedBlob" where
  "updatedBlob settings now existing newBlob =
     existing\<lparr>b_x := c_x newBlob, b_y := c_y newBlob, b_w := c_w newBlob, b_h := c_h newBlob,
       b_area := c_area newBlob, b_lastSeen := now, b_history := pushHistory settings existing,
       b_visualX := b_visualX existing, b_visualY := b_visualY existing\<rparr>"

definition newEntity :: "nat \<Rightarrow> int \<Rightarrow> Candidate \<Rightarrow> DetectedBlob" where
  "newEntity newId now newBlob =
     \<lparr>b_id = newId, b_x = c_x newBlob, b_y = c_y newBlob, b_w = c_w newBlob, b_h = c_h newBlob,
      b_area = c_area newBlob, b_history = [], b_lastSeen = now,
      b_visualX = Some (c_x newBlob), b_visualY = Some (c_y newBlob)\<rparr>"

text \<open>
  The body of \<open>currentFrameBlobs.forEach\<close> (lines 162 to 216), with the history
  update (lines 179 and 180), \<open>updated\<close> and \<open>newEntity\<close> defined before it.
  \<open>activeBlobs.get(closestId)!\<close> is a lookup whose result is used at once: were it
  undefined, reading \<open>existing.history\<close> would throw a TypeError.
\<close>

definition trackBlob ::
  "TrackerSettings \<Rightarrow> int \<Rightarrow> jsnum \<Rightarrow> Pass \<Rightarrow> Candidate \<Rightarrow> error + Pass"
where
  "trackBlob settings now maxDist p newBlob =
     (case fst (findClosest newBlob (assignedIds p) (activeBlobs (proc p)) (None, maxDist)) of
        Some closestId \<Rightarrow>
          (case map_of (activeBlobs (proc p)) closestId of
             None \<Rightarrow> Inl TypeError
           | Some existing \<Rightarrow>
               Inr \<lparr>proc = \<lparr>nextBlobId = nextBlobId (proc p),
                              activeBlobs = AList.update closestId (updatedBlob settings now existing newBlob)
                                              (activeBlobs (proc p))\<rparr>,
                    assignedIds = insert closestId (assignedIds p),
                    trackedBlobs = trackedBlobs p @ [updatedBlob settings now existing newBlob]\<rparr>)
      | None \<Rightarrow>
          Inr \<lparr>proc = \<lparr>nextBlobId = nextBlobId (proc p) + 1,
                         activeBlobs = AList.update (nextBlobId (proc p))
                                         (newEntity (nextBlobId (proc p)) now newBlob)
                                         (activeBlobs (proc p))\<rparr>,
               assignedIds = assignedIds p,
               trackedBlobs = trackedBlobs p @ [newEntity (nextBlobId (proc p)) now newBlob]\<rparr>)"

fun trackAll ::
  "TrackerSettings \<Rightarrow> int \<Rightarrow> jsnum \<Rightarrow> Pass \<Rightarrow> Candidate list \<Rightarrow> error + Pass"
where
  "trackAll settings now maxDist p [] = Inr p"
| "trackAll settings now maxDist p (newBlob # rest) =
     (case trackBlob settings now maxDist p newBlob of
        Inl e \<Rightarrow> Inl e
      | Inr p' \<Rightarrow> trackAll settings now maxDist p' rest)"

text \<open>
  The prune loop (lines 219 to 223).  Deleting the entry being visited is allowed inside
  \<open>Map.forEach\<close>; the entries that stay keep their order.
\<close>

fun prune :: "int \<Rightarrow> (nat \<times> DetectedBlob) list \<Rightarrow> (nat \<times> DetectedBlob) list" where
  "prune now [] = []"
| "prune now ((id', blob) # rest) =
     (if now - b_lastSeen blob > BLOB_TIMEOUT then prune now rest
      else (id', blob) # prune now rest)"

text \<open>
  Step 4 and the prune (lines 156 to 225), on the candidates of the frame.  \<open>now\<close>
  is the value \<open>Date.now()\<close> returns in this call.
\<close>

definition track ::
  "CVProcessor \<Rightarrow> Candidate list \<Rightarrow> TrackerSettings \<Rightarrow> jsnum \<Rightarrow> int
     \<Rightarrow> error + (DetectedBlob list \<times> CVProcessor)"
where
  "track s currentFrameBlobs settings scaleFactor now =
     (let maxDist = js_mul (Fin MAX_TRACKING_DISTANCE_BASE) (js_max (Fin 1) scaleFactor)
      in case trackAll settings now maxDist
                \<lparr>proc = s, assignedIds = {}, trackedBlobs = []\<rparr> currentFrameBlobs of
           Inl e \<Rightarrow> Inl e
         | Inr p \<Rightarrow>
             Inr (trackedBlobs p,
                  \<lparr>nextBlobId = nextBlobId (proc p),
                   activeBlobs = prune now (activeBlobs (proc p))\<rparr>))"

text \<open>
  \<open>processFrame\<close>.  The argument \<open>frame\<close> stands for what steps 1 and 2 deliver:
  \<open>None\<close> when the call returns \<open>[]\<close> early (no OpenCV, no Mats, or
  \<open>getImageData\<close> throws), else the contours found in the frame.
\<close>

definition processFrame ::
  "CVProcessor \<Rightarrow> Contour list option \<Rightarrow> TrackerSettings \<Rightarrow> jsnum \<Rightarrow> int
     \<Rightarrow> error + (DetectedBlob list \<times> CVProcessor)"
where
  "processFrame s frame settings scaleFactor now =
     (case frame of
        None \<Rightarrow> Inr ([], s)
      | Some contours \<Rightarrow>
          track s (extractBlobs settings scaleFactor contours) settings scaleFactor now)"


subsection \<open>Sequences of calls\<close>

text \<open>One call of \<open>processFrame\<close>: what the frame delivers, the arguments, the clock.\<close>

record Call =
  cl_frame :: "Contour list option"
  cl_settings :: TrackerSettings
  cl_scaleFactor :: jsnum
  cl_now :: int

text \<open>The processor after a sequence of calls (the returned lists are dropped).\<close>

fun run :: "CVProcessor \<Rightarrow> Call list \<Rightarrow> error + CVProcessor" where
  "run s [] = Inr s"
| "run s (c # cs) =
     (case processFrame s (cl_frame c) (cl_settings c) (cl_scaleFactor c) (cl_now c) of
        Inl e \<Rightarrow> Inl e
      | Inr (res, s') \<Rightarrow> run s' cs)"

subsection \<open>Well-formed processor states\<close>

text \<open>
  What holds of the state of every processor: the keys of the \<open>Map\<close> are distinct,
  each blob is stored under its own id, and every id in use is positive and below the
  counter.
\<close>

definition proc_inv :: "CVProcessor \<Rightarrow> bool" where
  "proc_inv s \<longleftrightarrow>
     distinct (map fst (activeBlobs s)) \<and>
     (\<forall>(k, b) \<in> set (activeBlobs s). b_id b = k \<and> 0 < k \<and> k < nextBlobId s) \<and>
     0 < nextBlobId s"

text \<open>The two outcomes of \<open>trackBlob\<close>, named.\<close>

definition matchedPass ::
  "TrackerSettings \<Rightarrow> int \<Rightarrow> Pass \<Rightarrow> Candidate \<Rightarrow> nat \<Rightarrow> DetectedBlob \<Rightarrow> Pass"
where
  "matchedPass st now p c k existing =
     \<lparr>proc = \<lparr>nextBlobId = nextBlobId (proc p),
               activeBlobs = AList.update k (updatedBlob st now existing c) (activeBlobs (proc p))\<rparr>,
      assignedIds = insert k (assignedIds p),
      trackedBlobs = trackedBlobs p @ [updatedBlob st now existing c]\<rparr>"

definition createdPass :: "int \<Rightarrow> Pass \<Rightarrow> Candidate \<Rightarrow> Pass" where
  "createdPass now p c =
     \<lparr>proc = \<lparr>nextBlobId = nextBlobId (proc p) + 1,
               activeBlobs = AList.update (nextBlobId (proc p)) (newEntity (nextBlobId (proc p)) now c)
                               (activeBlobs (proc p))\<rparr>,
      assignedIds = assignedIds p,
      trackedBlobs = trackedBlobs p @ [newEntity (nextBlobId (proc p)) now c]\<rparr>"

text \<open>
  The blobs the inner loop of \<open>trackBlob\<close> compares with the candidate: the
  entries of \<open>activeBlobs\<close> whose id is not in \<open>assignedIds\<close>.
\<close>

definition unassignedBlobs :: "Pass \<Rightarrow> (nat \<times> DetectedBlob) list" where
  "unassignedBlobs p = filter (\<lambda>(k, e). k \<notin> assignedIds p) (activeBlobs (proc p))"

text \<open>What holds during a tracking pass that started in state \<open>s0\<close>.\<close>

definition pass_inv :: "CVProcessor \<Rightarrow> int \<Rightarrow> Pass \<Rightarrow> bool" where
  "pass_inv s0 now p \<longleftrightarrow>
     proc_inv (proc p) \<and> nextBlobId s0 \<le> nextBlobId (proc p) \<and>
     (\<forall>b \<in> set (trackedBlobs p).
        b_lastSeen b = now \<and>
        (\<exists>b'. map_of (activeBlobs (proc p)) (b_id b) = Some b' \<and> b_lastSeen b' = now) \<and>
        (b_id b \<in> fst ` set (activeBlobs s0) \<or> nextBlobId s0 \<le> b_id b)) \<and>
     (\<forall>k. k \<notin> b_id ` set (trackedBlobs p) \<longrightarrow>
        map_of (activeBlobs (proc p)) k = map_of (activeBlobs s0) k)"


section \<open>The motion smoother (drawOverlays in components/BlobTracker.tsx)\<close>

definition lerpFactor :: "TrackerSettings \<Rightarrow> jsnum" where
  "lerpFactor settings = js_sub (Fin (8 / 10)) (js_mul (drift settings) (Fin (7 / 10)))"

text \<open>
  The position logic of the body of \<open>blobs.forEach\<close> in \<open>drawOverlays\<close> (lines
  113 to 128): the
  lazy initialisation of \<open>visualX, visualY\<close> (an undefined field reads as the true
  coordinate), the drift step, and the jittered drawing position \<open>(drawX, drawY)\<close>.
  \<open>time\<close> is a finite number of milliseconds.
\<close>

definition visualXOf :: "DetectedBlob \<Rightarrow> jsnum" where
  "visualXOf blob = (case b_visualX blob of None \<Rightarrow> b_x blob | Some v \<Rightarrow> v)"

definition visualYOf :: "DetectedBlob \<Rightarrow> jsnum" where
  "visualYOf blob = (case b_visualY blob of None \<Rightarrow> b_y blob | Some v \<Rightarrow> v)"

definition updateVisual :: "TrackerSettings \<Rightarrow> DetectedBlob \<Rightarrow> DetectedBlob" where
  "updateVisual settings blob =
     blob\<lparr>b_visualX :=
            Some (js_add (visualXOf blob)
                    (js_mul (js_sub (b_x blob) (visualXOf blob)) (lerpFactor settings))),
          b_visualY :=
            Some (js_add (visualYOf blob)
                    (js_mul (js_sub (b_y blob) (visualYOf blob)) (lerpFactor settings)))\<rparr>"

definition noiseX :: "TrackerSettings \<Rightarrow> real \<Rightarrow> DetectedBlob \<Rightarrow> jsnum" where
  "noiseX settings time blob =
     js_mul (js_mul (Fin (sin (time * (1 / 100) + real (b_id blob)) + cos (time * (5 / 100))))
               (jitter settings)) (Fin 20)"

definition noiseY :: "TrackerSettings \<Rightarrow> real \<Rightarrow> DetectedBlob \<Rightarrow> jsnum" where
  "noiseY settings time blob =
     js_mul (js_mul (Fin (cos (time * (1 / 100) + real (b_id blob)) + sin (time * (3 / 100))))
               (jitter settings)) (Fin 20)"

text \<open>The updated blob and the point \<open>(drawX, drawY)\<close> it is drawn at.\<close>

definition drawOverlay ::
  "TrackerSettings \<Rightarrow> real \<Rightarrow> DetectedBlob \<Rightarrow> DetectedBlob \<times> jsnum \<times> jsnum"
where
  "drawOverlay settings time blob =
     (let blob' = updateVisual settings blob
      in (blob', js_add (visualXOf blob') (noiseX settings time blob),
                 js_add (visualYOf blob') (noiseY settings time blob)))"


section \<open>The export loop (runRender in components/BlobTracker.tsx)\<close>

text \<open>
  The calls \<open>runRender\<close> (lines 203 to 340) makes on its collaborators, in order.
  \<open>RecorderStart m\<close> is the construction and start of the recorder with MIME type
  \<open>m\<close>; \<open>DecoderReset\<close> the assignment \<open>vid.currentTime = 0\<close>; \<open>Seek t\<close> the
  assignment \<open>vid.currentTime = t\<close> followed by the wait for \<open>seeked\<close> or the
  500 ms timeout; \<open>ProcessFrame\<close> is \<open>drawImage\<close> and \<open>processFrame\<close> at scale
  1; \<open>DrawOverlays ms\<close> the call of \<open>drawOverlays\<close> at that time;
  \<open>RequestFrame\<close> and \<open>WaitSample\<close> the two ways of committing the frame;
  \<open>RenderProgress p\<close> the call \<open>onRenderProgress(p)\<close>;
  \<open>RenderComplete fs ext\<close> the call \<open>onRenderComplete(blob, ext)\<close> made by the
  recorder's \<open>onstop\<close> handler, where the recorded chunks are represented by the
  times \<open>fs\<close> of the frames committed while the recorder ran.
\<close>

datatype event =
    RecorderStart string
  | VideoPause
  | ProcessorCleanup
  | Seek real
  | ProcessFrame
  | DrawOverlays real
  | RequestFrame
  | WaitSample
  | RenderProgress int
  | RecorderStop
  | DecoderReset
  | RenderComplete "real list" string

text \<open>
  The environment of one run: whether the canvas yields a 2D context, which MIME
  types the recorder supports, whether the captured track has \<open>requestFrame\<close>,
  \<open>vid.duration\<close> (finite: the metadata of the uploaded file is loaded before
  \<open>runRender\<close> can start), and the value of the flag \<open>cancelled\<close> at each
  evaluation of the loop condition (the flag is set from outside, by the effect's
  cleanup, while the loop is suspended at an \<open>await\<close>).
\<close>

record RenderEnv =
  ctxAvailable :: bool
  isTypeSupported :: "string \<Rightarrow> bool"
  hasRequestFrame :: bool
  vidDuration :: real
  cancelledAt :: "nat \<Rightarrow> bool"

definition mp4Types :: "string list" where
  "mp4Types = [''video/mp4; codecs=avc1.42E01E, mp4a.40.2'', ''video/mp4; codecs=h264'',
               ''video/mp4; codecs=avc1'', ''video/mp4'']"

text \<open>The pair \<open>(mimeType, extension)\<close>.\<close>

definition exportFormat :: "(string \<Rightarrow> bool) \<Rightarrow> string \<times> string" where
  "exportFormat supported =
     (case List.find supported mp4Types of
        Some supportedMp4 \<Rightarrow> (supportedMp4, ''mp4'')
      | None \<Rightarrow>
          if supported ''video/webm;codecs=vp9'' then (''video/webm;codecs=vp9'', ''webm'')
          else (''video/webm'', ''webm''))"

definition targetFps :: real where
  "targetFps = 30"

definition frameDuration :: real where
  "frameDuration = 1 / targetFps"

text \<open>\<open>Math.round\<close>: to the nearest integer, halves upwards.\<close>

definition js_round :: "real \<Rightarrow> int" where
  "js_round x = \<lfloor>x + 1 / 2\<rfloor>"

definition progressAt :: "real \<Rightarrow> real \<Rightarrow> int" where
  "progressAt duration currentTime = min 100 (js_round (currentTime / duration * 100))"

text \<open>
  Committing the frame: \<open>track.requestFrame()\<close> when the track has it, else the
  wait of a sixtieth of a second for the automatic capture.
\<close>

definition commitFrame :: "bool \<Rightarrow> event" where
  "commitFrame paced = (if paced then RequestFrame else WaitSample)"

text \<open>
  The \<open>while\<close> loop; \<open>k\<close> counts the evaluations of its condition.  It ends
  because \<open>currentTime\<close> grows by \<open>frameDuration\<close> in every round.
\<close>

function renderLoop :: "(nat \<Rightarrow> bool) \<Rightarrow> bool \<Rightarrow> real \<Rightarrow> real \<Rightarrow> nat \<Rightarrow> event list" where
  "renderLoop cancelled paced duration currentTime k =
     (if currentTime < duration \<and> \<not> cancelled k
      then [Seek currentTime, ProcessFrame, DrawOverlays (currentTime * 1000),
            commitFrame paced, RenderProgress (progressAt duration currentTime)]
           @ renderLoop cancelled paced duration (currentTime + frameDuration) (Suc k)
      else [])"
  by pat_completeness auto
termination
proof (relation "measure (\<lambda>(cancelled, paced, duration, currentTime, k).
                   nat \<lceil>(duration - currentTime) * targetFps\<rceil>)")
  show "wf (measure (\<lambda>(cancelled, paced, duration, currentTime, k).
                   nat \<lceil>(duration - currentTime) * targetFps\<rceil>))"
    by simp
next
  fix cancelled :: "nat \<Rightarrow> bool" and paced :: bool and duration currentTime :: real and k :: nat
  assume "currentTime < duration \<and> \<not> cancelled k"
  then have pos: "0 < (duration - currentTime) * 30" by simp
  have "(duration - (currentTime + 1 / 30)) * 30 = (duration - currentTime) * 30 - 1"
    by (simp add: algebra_simps)
  then have "\<lceil>(duration - (currentTime + 1 / 30)) * 30\<rceil> = \<lceil>(duration - currentTime) * 30\<rceil> - 1"
    by (simp only: ceiling_diff_one)
  moreover have "0 < \<lceil>(duration - currentTime) * 30\<rceil>"
    using pos by simp
  ultimately show "((cancelled, paced, duration, currentTime + frameDuration, Suc k),
          (cancelled, paced, duration, currentTime, k))
         \<in> measure (\<lambda>(cancelled, paced, duration, currentTime, k).
                   nat \<lceil>(duration - currentTime) * targetFps\<rceil>)"
    by (simp add: frameDuration_def targetFps_def)
qed

text \<open>The frames committed to the recorder, and the progress values reported.\<close>

fun committedFrames :: "event list \<Rightarrow> real list" where
  "committedFrames [] = []"
| "committedFrames (Seek t # es) = t # committedFrames es"
| "committedFrames (e # es) = committedFrames es"

fun reportedProgress :: "event list \<Rightarrow> int list" where
  "reportedProgress [] = []"
| "reportedProgress (RenderProgress p # es) = p # reportedProgress es"
| "reportedProgress (e # es) = reportedProgress es"

fun renderCompletes :: "event list \<Rightarrow> (real list \<times> string) list" where
  "renderCompletes [] = []"
| "renderCompletes (RenderComplete fs ext # es) = (fs, ext) # renderCompletes es"
| "renderCompletes (e # es) = renderCompletes es"

text \<open>\<open>vid.duration || 10\<close>.\<close>

definition sourceDuration :: "RenderEnv \<Rightarrow> real" where
  "sourceDuration env = (if vidDuration env = 0 then 10 else vidDuration env)"

text \<open>
  \<open>runRender\<close>.  Without a 2D context it returns at once.  The recorder is
  constructed with the negotiated MIME type; the last fallback, plain WebM, is not
  probed, and the constructor throws when the type is not supported.  After the loop,
  whichever way it ended, the handler is installed, the recorder is stopped and the
  video is set back to 0; stopping the recorder fires its \<open>stop\<close> event, which
  runs the handler.
\<close>

definition runRender :: "RenderEnv \<Rightarrow> error + event list" where
  "runRender env =
     (if \<not> ctxAvailable env then Inr []
      else
        let (mimeType, extension) = exportFormat (isTypeSupported env)
        in if \<not> isTypeSupported env mimeType then Inl NotSupportedError
           else
             let duration = sourceDuration env;
                 loop = renderLoop (cancelledAt env) (hasRequestFrame env) duration 0 0
             in Inr ([RecorderStart mimeType, VideoPause, DecoderReset, ProcessorCleanup] @ loop
                     @ [RecorderStop, DecoderReset,
                        RenderComplete (committedFrames loop) extension]))"


section \<open>Example inputs\<close>

text \<open>The initial settings of the application (\<open>App\<close>).\<close>

definition defaultSettings :: TrackerSettings where
  "defaultSettings = \<lparr>minArea = Fin 100, historyLength = Fin 15, jitter = Fin (1 / 10), drift = Fin (2 / 10)\<rparr>"

text \<open>A contour of the given area whose bounding rectangle is 20 by 20 with centre \<open>(x, y)\<close>.\<close>

definition contourAt :: "int \<Rightarrow> int \<Rightarrow> real \<Rightarrow> Contour" where
  "contourAt x y a = \<lparr>ct_area = a, rect_x = x - 10, rect_y = y - 10, rect_width = 20, rect_height = 20\<rparr>"


text \<open>
  The blob the tracker holds for such a contour at scale 1: id, position, time last
  seen, history, and display position.
\<close>

definition blobAt :: "nat \<Rightarrow> real \<Rightarrow> real \<Rightarrow> int \<Rightarrow> Point list \<Rightarrow> real \<Rightarrow> real \<Rightarrow> DetectedBlob" where
  "blobAt k x y seen hist vx vy =
     \<lparr>b_id = k, b_x = Fin x, b_y = Fin y, b_w = Fin 20, b_h = Fin 20, b_area = Fin 400,
      b_history = hist, b_lastSeen = seen, b_visualX = Some (Fin vx), b_visualY = Some (Fin vy)\<rparr>"

text \<open>
  A call at scale 1 on a frame with one such region, with the given
  \<open>historyLength\<close> and clock.
\<close>

definition callAt :: "int \<Rightarrow> int \<Rightarrow> real \<Rightarrow> int \<Rightarrow> Call" where
  "callAt x y h now =
     \<lparr>cl_frame = Some [contourAt x y 400],
      cl_settings = defaultSettings\<lparr>historyLength := Fin h\<rparr>,
      cl_scaleFactor = Fin 1, cl_now = now\<rparr>"


text \<open>
  Environments for \<open>runRender\<close>: a recorder that supports only plain WebM, a track
  with \<open>requestFrame\<close>, a video of the given duration, and a flag \<open>cancelled\<close> that
  is set before the \<open>n\<close>-th evaluation of the loop condition (counted from 0), or
  never.
\<close>

definition webmOnly :: "string \<Rightarrow> bool" where
  "webmOnly mimeType = (mimeType = ''video/webm'')"

definition cancelledFrom :: "nat \<Rightarrow> nat \<Rightarrow> bool" where
  "cancelledFrom n k = (n \<le> k)"


definition exampleEnv :: "real \<Rightarrow> (nat \<Rightarrow> bool) \<Rightarrow> RenderEnv" where
  "exampleEnv d c =
     \<lparr>ctxAvailable = True, isTypeSupported = webmOnly, hasRequestFrame = True,
      vidDuration = d, cancelledAt = c\<rparr>"


section \<open>Auxiliary facts\<close>

lemma sqrt_less_iff_sq: "0 < r \<Longrightarrow> sqrt a < r \<longleftrightarrow> a < r * r"
  by (metis abs_of_pos real_sqrt_abs2 real_sqrt_less_iff)

lemmas eval_defs =
  processFrame_def track_def trackBlob_def newCVProcessor_def defaultSettings_def contourAt_def
  blobAt_def callAt_def
  realArea_def toCandidate_def js_max_def js_gt_def js_sub_def distTo_def
  MAX_TRACKING_DISTANCE_BASE_def BLOB_TIMEOUT_def newEntity_def updatedBlob_def pushHistory_def
  sqrt_less_iff_sq


subsection \<open>The tracking pass\<close>

lemma js_lt_irrefl: "\<not> js_lt a a"
  by (cases a) simp_all

lemma js_lt_trans: "js_lt a b \<Longrightarrow> js_lt b c \<Longrightarrow> js_lt a c"
  by (cases a; cases b; cases c) simp_all

lemma js_lt_NaN_left: "\<not> js_lt NaN b"
  by simp

lemma js_lt_PInf_left: "\<not> js_lt PInf b"
  by simp

lemma js_lt_NaN_right: "\<not> js_lt a NaN"
  by (cases a) simp_all

lemma findClosest_cases:
  "(findClosest c A xs (cid, m) = (cid, m) \<and>
      (\<forall>(k, e) \<in> set xs. k \<notin> A \<longrightarrow> \<not> js_lt (distTo c e) m))
   \<or> (\<exists>k e. (k, e) \<in> set xs \<and> k \<notin> A \<and> findClosest c A xs (cid, m) = (Some k, distTo c e)
          \<and> js_lt (distTo c e) m
          \<and> (\<forall>(j, e') \<in> set xs. j \<notin> A \<longrightarrow> \<not> js_lt (distTo c e') (distTo c e)))"
proof (induction xs arbitrary: cid m)
  case Nil
  then show ?case by simp
next
  case (Cons x xs)
  obtain k0 e0 where x: "x = (k0, e0)" by (cases x)
  show ?case
  proof (cases "k0 \<in> A")
    case True
    with Cons.IH [of cid m] x show ?thesis by auto
  next
    case notin: False
    show ?thesis
    proof (cases "js_lt (distTo c e0) m")
      case True
      from Cons.IH [of "Some k0" "distTo c e0"] show ?thesis
      proof
        assume a: "findClosest c A xs (Some k0, distTo c e0) = (Some k0, distTo c e0) \<and>
          (\<forall>(k, e) \<in> set xs. k \<notin> A \<longrightarrow> \<not> js_lt (distTo c e) (distTo c e0))"
        have "(k0, e0) \<in> set (x # xs) \<and> k0 \<notin> A
            \<and> findClosest c A (x # xs) (cid, m) = (Some k0, distTo c e0)
            \<and> js_lt (distTo c e0) m
            \<and> (\<forall>(j, e') \<in> set (x # xs). j \<notin> A \<longrightarrow> \<not> js_lt (distTo c e') (distTo c e0))"
          using a x notin True by (auto simp: js_lt_irrefl)
        then show ?thesis by blast
      next
        assume "\<exists>k e. (k, e) \<in> set xs \<and> k \<notin> A
            \<and> findClosest c A xs (Some k0, distTo c e0) = (Some k, distTo c e)
            \<and> js_lt (distTo c e) (distTo c e0)
            \<and> (\<forall>(j, e') \<in> set xs. j \<notin> A \<longrightarrow> \<not> js_lt (distTo c e') (distTo c e))"
        then obtain k e where b: "(k, e) \<in> set xs" "k \<notin> A"
            "findClosest c A xs (Some k0, distTo c e0) = (Some k, distTo c e)"
            "js_lt (distTo c e) (distTo c e0)"
            "\<forall>(j, e') \<in> set xs. j \<notin> A \<longrightarrow> \<not> js_lt (distTo c e') (distTo c e)"
          by blast
        have "\<not> js_lt (distTo c e0) (distTo c e)"
          using b(4) js_lt_trans js_lt_irrefl by blast
        moreover have "js_lt (distTo c e) m"
          using b(4) True js_lt_trans by blast
        ultimately have "(k, e) \<in> set (x # xs) \<and> k \<notin> A
            \<and> findClosest c A (x # xs) (cid, m) = (Some k, distTo c e)
            \<and> js_lt (distTo c e) m
            \<and> (\<forall>(j, e') \<in> set (x # xs). j \<notin> A \<longrightarrow> \<not> js_lt (distTo c e') (distTo c e))"
          using b x notin True by auto
        then show ?thesis by blast
      qed
    next
      case False
      from Cons.IH [of cid m] show ?thesis
      proof
        assume "findClosest c A xs (cid, m) = (cid, m) \<and>
          (\<forall>(k, e) \<in> set xs. k \<notin> A \<longrightarrow> \<not> js_lt (distTo c e) m)"
        then show ?thesis using x notin False by auto
      next
        assume "\<exists>k e. (k, e) \<in> set xs \<and> k \<notin> A
            \<and> findClosest c A xs (cid, m) = (Some k, distTo c e)
            \<and> js_lt (distTo c e) m
            \<and> (\<forall>(j, e') \<in> set xs. j \<notin> A \<longrightarrow> \<not> js_lt (distTo c e') (distTo c e))"
        then obtain k e where b: "(k, e) \<in> set xs" "k \<notin> A"
            "findClosest c A xs (cid, m) = (Some k, distTo c e)"
            "js_lt (distTo c e) m"
            "\<forall>(j, e') \<in> set xs. j \<notin> A \<longrightarrow> \<not> js_lt (distTo c e') (distTo c e)"
          by blast
        have "\<not> js_lt (distTo c e0) (distTo c e)"
          using b(4) False js_lt_trans by blast
        then have "(k, e) \<in> set (x # xs) \<and> k \<notin> A
            \<and> findClosest c A (x # xs) (cid, m) = (Some k, distTo c e)
            \<and> js_lt (distTo c e) m
            \<and> (\<forall>(j, e') \<in> set (x # xs). j \<notin> A \<longrightarrow> \<not> js_lt (distTo c e') (distTo c e))"
          using b x notin False by auto
        then show ?thesis by blast
      qed
    qed
  qed
qed

lemma findClosest_Some_key:
  "fst (findClosest c A xs (cid, m)) = Some k \<Longrightarrow> cid = Some k \<or> (k \<in> fst ` set xs \<and> k \<notin> A)"
  using findClosest_cases [of c A xs cid m] by force

lemma trackBlob_cases:
  obtains (matched) k existing where
      "fst (findClosest c (assignedIds p) (activeBlobs (proc p)) (None, md)) = Some k"
      "k \<in> fst ` set (activeBlobs (proc p))" "k \<notin> assignedIds p"
      "map_of (activeBlobs (proc p)) k = Some existing"
      "trackBlob st now md p c = Inr (matchedPass st now p c k existing)"
  | (created)
      "fst (findClosest c (assignedIds p) (activeBlobs (proc p)) (None, md)) = None"
      "trackBlob st now md p c = Inr (createdPass now p c)"
proof (cases "fst (findClosest c (assignedIds p) (activeBlobs (proc p)) (None, md))")
  case None
  then have "trackBlob st now md p c = Inr (createdPass now p c)"
    by (simp add: trackBlob_def createdPass_def)
  with None show ?thesis by (rule created)
next
  case (Some k)
  from findClosest_Some_key [OF Some]
  have k: "k \<in> fst ` set (activeBlobs (proc p))" "k \<notin> assignedIds p" by auto
  then obtain existing where ex: "map_of (activeBlobs (proc p)) k = Some existing"
    by (metis domD dom_map_of_conv_image_fst)
  have "trackBlob st now md p c = Inr (matchedPass st now p c k existing)"
    using Some ex by (simp add: trackBlob_def matchedPass_def)
  with Some k ex show ?thesis by (rule matched)
qed

lemma trackBlob_total: "\<exists>p'. trackBlob st now md p c = Inr p'"
  by (rule trackBlob_cases [of c p md st now]) blast+

lemma trackAll_total: "\<exists>p'. trackAll st now md p cs = Inr p'"
proof (induction cs arbitrary: p)
  case Nil
  show ?case by simp
next
  case (Cons c cs)
  obtain p1 where "trackBlob st now md p c = Inr p1" using trackBlob_total by blast
  with Cons [of p1] show ?case by simp
qed

lemma trackAll_invariant:
  assumes "trackAll st now md p cs = Inr p'"
    and "Q p"
    and "\<And>q c q'. Q q \<Longrightarrow> trackBlob st now md q c = Inr q' \<Longrightarrow> Q q'"
  shows "Q p'"
  using assms(1,2)
proof (induction cs arbitrary: p)
  case Nil
  then show ?case by simp
next
  case (Cons c cs)
  obtain p1 where p1: "trackBlob st now md p c = Inr p1" using trackBlob_total by blast
  with Cons.prems have "trackAll st now md p1 cs = Inr p'" by simp
  moreover have "Q p1" using assms(3) Cons.prems(2) p1 by blast
  ultimately show ?case by (rule Cons.IH)
qed

lemma in_set_updateD:
  "(j, b) \<in> set (AList.update k v al) \<Longrightarrow> (j, b) = (k, v) \<or> (j, b) \<in> set al"
  by (induction al) (auto split: if_splits)

lemma proc_invI:
  assumes "distinct (map fst (activeBlobs s))"
    and "\<And>k b. (k, b) \<in> set (activeBlobs s) \<Longrightarrow> b_id b = k \<and> 0 < k \<and> k < nextBlobId s"
    and "0 < nextBlobId s"
  shows "proc_inv s"
  using assms unfolding proc_inv_def by auto

lemma proc_inv_entry:
  "proc_inv s \<Longrightarrow> (k, b) \<in> set (activeBlobs s) \<Longrightarrow> b_id b = k \<and> 0 < k \<and> k < nextBlobId s"
  unfolding proc_inv_def by auto

lemma proc_inv_distinct: "proc_inv s \<Longrightarrow> distinct (map fst (activeBlobs s))"
  unfolding proc_inv_def by simp

lemma proc_inv_next: "proc_inv s \<Longrightarrow> 0 < nextBlobId s"
  unfolding proc_inv_def by simp

lemma proc_inv_map_of:
  "proc_inv s \<Longrightarrow> map_of (activeBlobs s) k = Some b \<Longrightarrow> b_id b = k \<and> 0 < k \<and> k < nextBlobId s"
  using proc_inv_entry map_of_SomeD by fast


lemma b_id_updatedBlob [simp]: "b_id (updatedBlob st now existing c) = b_id existing"
  by (simp add: updatedBlob_def)

lemma b_lastSeen_updatedBlob [simp]: "b_lastSeen (updatedBlob st now existing c) = now"
  by (simp add: updatedBlob_def)

lemma b_id_newEntity [simp]: "b_id (newEntity k now c) = k"
  by (simp add: newEntity_def)

lemma b_lastSeen_newEntity [simp]: "b_lastSeen (newEntity k now c) = now"
  by (simp add: newEntity_def)

lemma proc_matchedPass [simp]:
  "nextBlobId (proc (matchedPass st now p c k existing)) = nextBlobId (proc p)"
  "activeBlobs (proc (matchedPass st now p c k existing)) =
     AList.update k (updatedBlob st now existing c) (activeBlobs (proc p))"
  "assignedIds (matchedPass st now p c k existing) = insert k (assignedIds p)"
  "trackedBlobs (matchedPass st now p c k existing) = trackedBlobs p @ [updatedBlob st now existing c]"
  by (simp_all add: matchedPass_def)

lemma proc_createdPass [simp]:
  "nextBlobId (proc (createdPass now p c)) = nextBlobId (proc p) + 1"
  "activeBlobs (proc (createdPass now p c)) =
     AList.update (nextBlobId (proc p)) (newEntity (nextBlobId (proc p)) now c) (activeBlobs (proc p))"
  "assignedIds (createdPass now p c) = assignedIds p"
  "trackedBlobs (createdPass now p c) = trackedBlobs p @ [newEntity (nextBlobId (proc p)) now c]"
  by (simp_all add: createdPass_def)

lemma proc_inv_matched:
  assumes "proc_inv (proc p)" and "map_of (activeBlobs (proc p)) k = Some existing"
  shows "proc_inv (proc (matchedPass st now p c k existing))"
proof (rule proc_invI)
  show "distinct (map fst (activeBlobs (proc (matchedPass st now p c k existing))))"
    using proc_inv_distinct [OF assms(1)] by (simp add: distinct_update)
  show "0 < nextBlobId (proc (matchedPass st now p c k existing))"
    using proc_inv_next [OF assms(1)] by simp
  fix j b
  assume "(j, b) \<in> set (activeBlobs (proc (matchedPass st now p c k existing)))"
  then have "(j, b) = (k, updatedBlob st now existing c) \<or> (j, b) \<in> set (activeBlobs (proc p))"
    using in_set_updateD by simp
  then show "b_id b = j \<and> 0 < j \<and> j < nextBlobId (proc (matchedPass st now p c k existing))"
  proof
    assume "(j, b) = (k, updatedBlob st now existing c)"
    then show ?thesis using proc_inv_map_of [OF assms] by simp
  next
    assume "(j, b) \<in> set (activeBlobs (proc p))"
    then show ?thesis using proc_inv_entry [OF assms(1)] by simp
  qed
qed

lemma proc_inv_created:
  assumes "proc_inv (proc p)"
  shows "proc_inv (proc (createdPass now p c))"
proof (rule proc_invI)
  show "distinct (map fst (activeBlobs (proc (createdPass now p c))))"
    using proc_inv_distinct [OF assms(1)] by (simp add: distinct_update)
  show "0 < nextBlobId (proc (createdPass now p c))"
    by simp
  fix j b
  assume "(j, b) \<in> set (activeBlobs (proc (createdPass now p c)))"
  then have "(j, b) = (nextBlobId (proc p), newEntity (nextBlobId (proc p)) now c)
      \<or> (j, b) \<in> set (activeBlobs (proc p))"
    using in_set_updateD by simp
  then show "b_id b = j \<and> 0 < j \<and> j < nextBlobId (proc (createdPass now p c))"
  proof
    assume "(j, b) = (nextBlobId (proc p), newEntity (nextBlobId (proc p)) now c)"
    then show ?thesis using proc_inv_next [OF assms(1)] by simp
  next
    assume "(j, b) \<in> set (activeBlobs (proc p))"
    then show ?thesis using proc_inv_entry [OF assms(1), of j b] by simp
  qed
qed

lemma proc_inv_trackBlob:
  assumes "proc_inv (proc p)" and "trackBlob st now md p c = Inr p'"
  shows "proc_inv (proc p')"
proof (rule trackBlob_cases [of c p md st now])
  fix k existing
  assume "map_of (activeBlobs (proc p)) k = Some existing"
    and "trackBlob st now md p c = Inr (matchedPass st now p c k existing)"
  then show ?thesis using assms proc_inv_matched by auto
next
  assume "trackBlob st now md p c = Inr (createdPass now p c)"
  then show ?thesis using assms proc_inv_created by auto
qed

lemma pass_inv_init:
  "proc_inv s0 \<Longrightarrow> pass_inv s0 now \<lparr>proc = s0, assignedIds = {}, trackedBlobs = []\<rparr>"
  by (simp add: pass_inv_def)

lemma pass_inv_key_origin:
  assumes "pass_inv s0 now p" and "k \<in> fst ` set (activeBlobs (proc p))"
  shows "k \<in> fst ` set (activeBlobs s0) \<or> nextBlobId s0 \<le> k"
proof (cases "k \<in> b_id ` set (trackedBlobs p)")
  case True
  then show ?thesis using assms(1) unfolding pass_inv_def by auto
next
  case False
  then have "map_of (activeBlobs (proc p)) k = map_of (activeBlobs s0) k"
    using assms(1) unfolding pass_inv_def by blast
  moreover have "map_of (activeBlobs (proc p)) k \<noteq> None"
    using assms(2) by (simp add: map_of_eq_None_iff)
  ultimately have "map_of (activeBlobs s0) k \<noteq> None" by simp
  then show ?thesis by (simp add: map_of_eq_None_iff)
qed

lemma pass_inv_matched:
  assumes inv: "pass_inv s0 now p"
    and key: "k \<in> fst ` set (activeBlobs (proc p))"
    and ex: "map_of (activeBlobs (proc p)) k = Some existing"
  shows "pass_inv s0 now (matchedPass st now p c k existing)"
proof -
  have pi: "proc_inv (proc p)" using inv by (simp add: pass_inv_def)
  have idk: "b_id existing = k" using proc_inv_map_of [OF pi ex] by simp
  let ?u = "updatedBlob st now existing c"
  let ?al = "AList.update k ?u (activeBlobs (proc p))"
  have 1: "proc_inv (proc (matchedPass st now p c k existing))"
    using proc_inv_matched [OF pi ex] .
  have 2: "nextBlobId s0 \<le> nextBlobId (proc (matchedPass st now p c k existing))"
    using inv by (simp add: pass_inv_def)
  have 3: "b_lastSeen b = now \<and>
        (\<exists>b'. map_of ?al (b_id b) = Some b' \<and> b_lastSeen b' = now) \<and>
        (b_id b \<in> fst ` set (activeBlobs s0) \<or> nextBlobId s0 \<le> b_id b)"
    if b: "b \<in> set (trackedBlobs p @ [?u])" for b
  proof (cases "b \<in> set (trackedBlobs p)")
    case True
    then have old: "b_lastSeen b = now"
        "\<exists>b'. map_of (activeBlobs (proc p)) (b_id b) = Some b' \<and> b_lastSeen b' = now"
        "b_id b \<in> fst ` set (activeBlobs s0) \<or> nextBlobId s0 \<le> b_id b"
      using inv unfolding pass_inv_def by blast+
    have "\<exists>b'. map_of ?al (b_id b) = Some b' \<and> b_lastSeen b' = now"
      using old(2) by (cases "b_id b = k") (simp_all add: update_conv')
    with old show ?thesis by simp
  next
    case False
    with b have "b = ?u" by simp
    then show ?thesis using idk pass_inv_key_origin [OF inv key] by (simp add: update_conv')
  qed
  have 4: "map_of ?al j = map_of (activeBlobs s0) j"
    if "j \<notin> b_id ` set (trackedBlobs p @ [?u])" for j
  proof -
    from that have "j \<noteq> k" and "j \<notin> b_id ` set (trackedBlobs p)" using idk by auto
    then show ?thesis using inv unfolding pass_inv_def by (simp add: update_conv')
  qed
  show ?thesis
    unfolding pass_inv_def using 1 2 3 4 by simp
qed

lemma pass_inv_created:
  assumes inv: "pass_inv s0 now p"
  shows "pass_inv s0 now (createdPass now p c)"
proof -
  have pi: "proc_inv (proc p)" using inv by (simp add: pass_inv_def)
  have le: "nextBlobId s0 \<le> nextBlobId (proc p)" using inv by (simp add: pass_inv_def)
  let ?n = "nextBlobId (proc p)"
  let ?u = "newEntity ?n now c"
  let ?al = "AList.update ?n ?u (activeBlobs (proc p))"
  have 1: "proc_inv (proc (createdPass now p c))"
    using proc_inv_created [OF pi] .
  have 2: "nextBlobId s0 \<le> nextBlobId (proc (createdPass now p c))"
    using le by simp
  have 3: "b_lastSeen b = now \<and>
        (\<exists>b'. map_of ?al (b_id b) = Some b' \<and> b_lastSeen b' = now) \<and>
        (b_id b \<in> fst ` set (activeBlobs s0) \<or> nextBlobId s0 \<le> b_id b)"
    if b: "b \<in> set (trackedBlobs p @ [?u])" for b
  proof (cases "b \<in> set (trackedBlobs p)")
    case True
    then have old: "b_lastSeen b = now"
        "\<exists>b'. map_of (activeBlobs (proc p)) (b_id b) = Some b' \<and> b_lastSeen b' = now"
        "b_id b \<in> fst ` set (activeBlobs s0) \<or> nextBlobId s0 \<le> b_id b"
      using inv unfolding pass_inv_def by blast+
    have "\<exists>b'. map_of ?al (b_id b) = Some b' \<and> b_lastSeen b' = now"
      using old(2) by (cases "b_id b = ?n") (simp_all add: update_conv')
    with old show ?thesis by simp
  next
    case False
    with b have "b = ?u" by simp
    then show ?thesis using le by (simp add: update_conv')
  qed
  have 4: "map_of ?al j = map_of (activeBlobs s0) j"
    if "j \<notin> b_id ` set (trackedBlobs p @ [?u])" for j
  proof -
    from that have "j \<noteq> ?n" and "j \<notin> b_id ` set (trackedBlobs p)" by auto
    then show ?thesis using inv unfolding pass_inv_def by (simp add: update_conv')
  qed
  show ?thesis
    unfolding pass_inv_def using 1 2 3 4 by simp
qed

lemma pass_inv_trackBlob:
  assumes "pass_inv s0 now p" and "trackBlob st now md p c = Inr p'"
  shows "pass_inv s0 now p'"
proof (rule trackBlob_cases [of c p md st now])
  fix k existing
  assume "k \<in> fst ` set (activeBlobs (proc p))"
    and "map_of (activeBlobs (proc p)) k = Some existing"
    and "trackBlob st now md p c = Inr (matchedPass st now p c k existing)"
  then show ?thesis using assms pass_inv_matched by auto
next
  assume "trackBlob st now md p c = Inr (createdPass now p c)"
  then show ?thesis using assms pass_inv_created by auto
qed

lemma pass_inv_trackAll:
  assumes "proc_inv s0"
    and "trackAll st now md \<lparr>proc = s0, assignedIds = {}, trackedBlobs = []\<rparr> cs = Inr p"
  shows "pass_inv s0 now p"
  using assms(2) pass_inv_init [OF assms(1)] pass_inv_trackBlob
  by (rule trackAll_invariant)

lemma prune_filter:
  "prune now xs = filter (\<lambda>(k, b). \<not> now - b_lastSeen b > BLOB_TIMEOUT) xs"
  by (induction now xs rule: prune.induct) simp_all

lemma keys_prune_subset: "fst ` set (prune now xs) \<subseteq> fst ` set xs"
  by (auto simp: prune_filter)

lemma map_of_prune:
  assumes "distinct (map fst xs)"
  shows "map_of (prune now xs) k =
     (case map_of xs k of None \<Rightarrow> None
      | Some b \<Rightarrow> if now - b_lastSeen b > BLOB_TIMEOUT then None else Some b)"
  using assms
proof (induction now xs rule: prune.induct)
  case (1 now)
  show ?case by simp
next
  case (2 now k' blob rest)
  have notin: "k' \<notin> fst ` set (prune now rest)"
    using "2.prems" keys_prune_subset [of now rest] by auto
  show ?case
  proof (cases "k = k'")
    case True
    then show ?thesis using notin by (simp add: map_of_eq_None_iff)
  next
    case False
    then show ?thesis using 2 by simp
  qed
qed

lemma proc_inv_prune:
  assumes "proc_inv s"
  shows "proc_inv \<lparr>nextBlobId = nextBlobId s, activeBlobs = prune now (activeBlobs s)\<rparr>"
proof (rule proc_invI)
  show "distinct (map fst (activeBlobs \<lparr>nextBlobId = nextBlobId s, activeBlobs = prune now (activeBlobs s)\<rparr>))"
    using proc_inv_distinct [OF assms] by (simp add: prune_filter distinct_map_filter)
  show "0 < nextBlobId \<lparr>nextBlobId = nextBlobId s, activeBlobs = prune now (activeBlobs s)\<rparr>"
    using proc_inv_next [OF assms] by simp
  fix k b
  assume "(k, b) \<in> set (activeBlobs \<lparr>nextBlobId = nextBlobId s, activeBlobs = prune now (activeBlobs s)\<rparr>)"
  then have "(k, b) \<in> set (activeBlobs s)" by (simp add: prune_filter)
  then show "b_id b = k \<and> 0 < k
      \<and> k < nextBlobId \<lparr>nextBlobId = nextBlobId s, activeBlobs = prune now (activeBlobs s)\<rparr>"
    using proc_inv_entry [OF assms] by simp
qed

lemma track_Inr:
  assumes "track s cs st sf now = Inr (res, s')"
  obtains p where
    "trackAll st now (js_mul (Fin MAX_TRACKING_DISTANCE_BASE) (js_max (Fin 1) sf))
       \<lparr>proc = s, assignedIds = {}, trackedBlobs = []\<rparr> cs = Inr p"
    "res = trackedBlobs p"
    "s' = \<lparr>nextBlobId = nextBlobId (proc p), activeBlobs = prune now (activeBlobs (proc p))\<rparr>"
  using assms unfolding track_def Let_def by (auto split: sum.splits)

lemma track_total: "\<exists>res s'. track s cs st sf now = Inr (res, s')"
proof -
  obtain p where "trackAll st now (js_mul (Fin MAX_TRACKING_DISTANCE_BASE) (js_max (Fin 1) sf))
       \<lparr>proc = s, assignedIds = {}, trackedBlobs = []\<rparr> cs = Inr p"
    using trackAll_total by blast
  then show ?thesis by (simp add: track_def)
qed

lemma track_props:
  assumes inv: "proc_inv s" and tr: "track s cs st sf now = Inr (res, s')"
  shows "proc_inv s'"
    and "nextBlobId s \<le> nextBlobId s'"
    and "\<And>b. b \<in> set res \<Longrightarrow> b_lastSeen b = now"
    and "\<And>b. b \<in> set res \<Longrightarrow>
           \<exists>b'. map_of (activeBlobs s') (b_id b) = Some b' \<and> b_lastSeen b' = now"
    and "\<And>b. b \<in> set res \<Longrightarrow> b_id b \<in> fst ` set (activeBlobs s) \<or> nextBlobId s \<le> b_id b"
    and "\<And>k. k \<notin> b_id ` set res \<Longrightarrow>
           map_of (activeBlobs s') k =
             (case map_of (activeBlobs s) k of None \<Rightarrow> None
              | Some b \<Rightarrow> if now - b_lastSeen b > BLOB_TIMEOUT then None else Some b)"
proof -
  from tr obtain p where p:
    "trackAll st now (js_mul (Fin MAX_TRACKING_DISTANCE_BASE) (js_max (Fin 1) sf))
       \<lparr>proc = s, assignedIds = {}, trackedBlobs = []\<rparr> cs = Inr p"
    "res = trackedBlobs p"
    "s' = \<lparr>nextBlobId = nextBlobId (proc p), activeBlobs = prune now (activeBlobs (proc p))\<rparr>"
    by (rule track_Inr)
  have pinv: "pass_inv s now p" using pass_inv_trackAll [OF inv p(1)] .
  have pi: "proc_inv (proc p)" using pinv by (simp add: pass_inv_def)
  have d: "distinct (map fst (activeBlobs (proc p)))" using proc_inv_distinct [OF pi] .
  show "proc_inv s'" using proc_inv_prune [OF pi] p(3) by simp
  show "nextBlobId s \<le> nextBlobId s'" using pinv p(3) by (simp add: pass_inv_def)
  show "b_lastSeen b = now" if "b \<in> set res" for b
    using that pinv p(2) unfolding pass_inv_def by blast
  show "\<exists>b'. map_of (activeBlobs s') (b_id b) = Some b' \<and> b_lastSeen b' = now"
    if "b \<in> set res" for b
  proof -
    from that obtain b' where "map_of (activeBlobs (proc p)) (b_id b) = Some b'" "b_lastSeen b' = now"
      using pinv p(2) unfolding pass_inv_def by blast
    then show ?thesis using p(3) by (simp add: map_of_prune [OF d] BLOB_TIMEOUT_def)
  qed
  show "b_id b \<in> fst ` set (activeBlobs s) \<or> nextBlobId s \<le> b_id b" if "b \<in> set res" for b
    using that pinv p(2) unfolding pass_inv_def by blast
  show "map_of (activeBlobs s') k =
             (case map_of (activeBlobs s) k of None \<Rightarrow> None
              | Some b \<Rightarrow> if now - b_lastSeen b > BLOB_TIMEOUT then None else Some b)"
    if "k \<notin> b_id ` set res" for k
  proof -
    from that have "map_of (activeBlobs (proc p)) k = map_of (activeBlobs s) k"
      using pinv p(2) unfolding pass_inv_def by blast
    then show ?thesis using p(3) by (simp add: map_of_prune [OF d])
  qed
qed


subsection \<open>Calls and runs\<close>

lemma processFrame_None: "processFrame s None st sf now = Inr ([], s)"
  by (simp add: processFrame_def)

lemma processFrame_Some:
  "processFrame s (Some contours) st sf now = track s (extractBlobs st sf contours) st sf now"
  by (simp add: processFrame_def)

lemma processFrame_total: "\<exists>res s'. processFrame s frame st sf now = Inr (res, s')"
  by (cases frame) (simp_all add: processFrame_None processFrame_Some track_total)

lemma proc_inv_processFrame:
  assumes "proc_inv s" and "processFrame s frame st sf now = Inr (res, s')"
  shows "proc_inv s'"
proof (cases frame)
  case None
  with assms show ?thesis by (simp add: processFrame_None)
next
  case (Some contours)
  with assms(2) have "track s (extractBlobs st sf contours) st sf now = Inr (res, s')"
    by (simp add: processFrame_Some)
  with assms(1) show ?thesis by (rule track_props(1))
qed

lemma proc_inv_new: "proc_inv newCVProcessor"
  by (simp add: proc_inv_def newCVProcessor_def)

lemma proc_inv_run:
  "proc_inv s \<Longrightarrow> run s calls = Inr s' \<Longrightarrow> proc_inv s'"
proof (induction calls arbitrary: s)
  case Nil
  then show ?case by simp
next
  case (Cons c calls)
  obtain res s1 where s1:
    "processFrame s (cl_frame c) (cl_settings c) (cl_scaleFactor c) (cl_now c) = Inr (res, s1)"
    using processFrame_total by blast
  have "proc_inv s1" using Cons.prems(1) s1 by (rule proc_inv_processFrame)
  moreover have "run s1 calls = Inr s'" using Cons.prems(2) s1 by simp
  ultimately show ?case by (rule Cons.IH)
qed

lemma reachable_inv: "run newCVProcessor calls = Inr s \<Longrightarrow> proc_inv s"
  using proc_inv_new by (rule proc_inv_run)

lemma run_total: "\<exists>s'. run s calls = Inr s'"
proof (induction calls arbitrary: s)
  case Nil
  show ?case by simp
next
  case (Cons c calls)
  obtain res s1 where s1:
    "processFrame s (cl_frame c) (cl_settings c) (cl_scaleFactor c) (cl_now c) = Inr (res, s1)"
    using processFrame_total by blast
  with Cons [of s1] show ?case by simp
qed


lemma keys_iff_map_of: "k \<in> fst ` set xs \<longleftrightarrow> map_of xs k \<noteq> None"
  by (simp add: map_of_eq_None_iff)


subsection \<open>Areas and positions of the returned blobs\<close>

lemma extractBlobs_filter:
  "extractBlobs st sf contours =
     map (toCandidate sf) (filter (\<lambda>c. js_gt (realArea sf c) (minArea st)) contours)"
  by (induction contours) simp_all

lemma c_area_toCandidate [simp]: "c_area (toCandidate sf c) = realArea sf c"
  by (simp add: toCandidate_def)

lemma fields_updatedBlob [simp]:
  "b_area (updatedBlob st now existing c) = c_area c"
  "b_x (updatedBlob st now existing c) = c_x c"
  "b_y (updatedBlob st now existing c) = c_y c"
  "b_history (updatedBlob st now existing c) = pushHistory st existing"
  by (simp_all add: updatedBlob_def)

lemma fields_newEntity [simp]:
  "b_area (newEntity k now c) = c_area c"
  "b_x (newEntity k now c) = c_x c"
  "b_y (newEntity k now c) = c_y c"
  "b_history (newEntity k now c) = []"
  by (simp_all add: newEntity_def)

lemma trackBlob_tracked:
  assumes "trackBlob st now md p c = Inr p'"
  shows "\<exists>b. trackedBlobs p' = trackedBlobs p @ [b] \<and> b_area b = c_area c
           \<and> b_x b = c_x c \<and> b_y b = c_y c"
proof (rule trackBlob_cases [of c p md st now])
  fix k existing
  assume "trackBlob st now md p c = Inr (matchedPass st now p c k existing)"
  with assms have "p' = matchedPass st now p c k existing" by simp
  then show ?thesis by simp
next
  assume "trackBlob st now md p c = Inr (createdPass now p c)"
  with assms have "p' = createdPass now p c" by simp
  then show ?thesis by simp
qed

lemma trackAll_tracked:
  "trackAll st now md p cs = Inr p' \<Longrightarrow>
     map b_area (trackedBlobs p') = map b_area (trackedBlobs p) @ map c_area cs
   \<and> map b_x (trackedBlobs p') = map b_x (trackedBlobs p) @ map c_x cs
   \<and> map b_y (trackedBlobs p') = map b_y (trackedBlobs p) @ map c_y cs"
proof (induction cs arbitrary: p)
  case Nil
  then show ?case by simp
next
  case (Cons c cs)
  obtain p1 where p1: "trackBlob st now md p c = Inr p1" using trackBlob_total by blast
  then obtain b where b: "trackedBlobs p1 = trackedBlobs p @ [b]" "b_area b = c_area c"
      "b_x b = c_x c" "b_y b = c_y c"
    using trackBlob_tracked by blast
  have "trackAll st now md p1 cs = Inr p'" using Cons.prems p1 by simp
  from Cons.IH [OF this] b show ?case by simp
qed

lemma track_tracked:
  assumes "track s cs st sf now = Inr (res, s')"
  shows "map b_area res = map c_area cs" and "map b_x res = map c_x cs"
    and "map b_y res = map c_y cs"
proof -
  from assms obtain p where p:
    "trackAll st now (js_mul (Fin MAX_TRACKING_DISTANCE_BASE) (js_max (Fin 1) sf))
       \<lparr>proc = s, assignedIds = {}, trackedBlobs = []\<rparr> cs = Inr p"
    "res = trackedBlobs p"
    by (rule track_Inr)
  from trackAll_tracked [OF p(1)] p(2)
  show "map b_area res = map c_area cs" and "map b_x res = map c_x cs"
    and "map b_y res = map c_y cs"
    by simp_all
qed

subsection \<open>The bound on the history\<close>

lemma length_pushHistory:
  assumes "historyLength st = Fin h" and "h \<le> H" and "real (length (b_history existing)) \<le> H"
  shows "real (length (pushHistory st existing)) \<le> H"
  using assms by (simp add: pushHistory_def Let_def js_gt_def)

lemma hist_trackBlob:
  assumes h: "historyLength st = Fin h" "h \<le> H" "0 \<le> H"
    and a: "\<forall>(k, b) \<in> set (activeBlobs (proc p)). real (length (b_history b)) \<le> H"
    and t: "\<forall>b \<in> set (trackedBlobs p). real (length (b_history b)) \<le> H"
    and step: "trackBlob st now md p c = Inr p'"
  shows "(\<forall>(k, b) \<in> set (activeBlobs (proc p')). real (length (b_history b)) \<le> H)
       \<and> (\<forall>b \<in> set (trackedBlobs p'). real (length (b_history b)) \<le> H)"
proof (rule trackBlob_cases [of c p md st now])
  fix k existing
  assume ex: "map_of (activeBlobs (proc p)) k = Some existing"
    and "trackBlob st now md p c = Inr (matchedPass st now p c k existing)"
  with step have p': "p' = matchedPass st now p c k existing" by simp
  have "(k, existing) \<in> set (activeBlobs (proc p))" using ex by (rule map_of_SomeD)
  with a have "real (length (b_history existing)) \<le> H" by auto
  then have u: "real (length (b_history (updatedBlob st now existing c))) \<le> H"
    using h(1,2) by (simp add: length_pushHistory)
  have "real (length (b_history b)) \<le> H"
    if "(j, b) \<in> set (AList.update k (updatedBlob st now existing c) (activeBlobs (proc p)))" for j b
    using in_set_updateD [OF that] u a by auto
  then show ?thesis using p' t u by auto
next
  assume "trackBlob st now md p c = Inr (createdPass now p c)"
  with step have p': "p' = createdPass now p c" by simp
  have "real (length (b_history b)) \<le> H"
    if "(j, b) \<in> set (AList.update (nextBlobId (proc p)) (newEntity (nextBlobId (proc p)) now c)
                        (activeBlobs (proc p)))" for j b
    using in_set_updateD [OF that] h(3) a by auto
  then show ?thesis using p' t h(3) by auto
qed

lemma hist_track:
  assumes h: "historyLength st = Fin h" "h \<le> H" "0 \<le> H"
    and a: "\<forall>(k, b) \<in> set (activeBlobs s). real (length (b_history b)) \<le> H"
    and tr: "track s cs st sf now = Inr (res, s')"
  shows "(\<forall>(k, b) \<in> set (activeBlobs s'). real (length (b_history b)) \<le> H)
       \<and> (\<forall>b \<in> set res. real (length (b_history b)) \<le> H)"
proof -
  from tr obtain p where p:
    "trackAll st now (js_mul (Fin MAX_TRACKING_DISTANCE_BASE) (js_max (Fin 1) sf))
       \<lparr>proc = s, assignedIds = {}, trackedBlobs = []\<rparr> cs = Inr p"
    "res = trackedBlobs p"
    "s' = \<lparr>nextBlobId = nextBlobId (proc p), activeBlobs = prune now (activeBlobs (proc p))\<rparr>"
    by (rule track_Inr)
  let ?Q = "\<lambda>q. (\<forall>(k, b) \<in> set (activeBlobs (proc q)). real (length (b_history b)) \<le> H)
       \<and> (\<forall>b \<in> set (trackedBlobs q). real (length (b_history b)) \<le> H)"
  have "?Q p"
  proof (rule trackAll_invariant [where Q = ?Q, OF p(1)])
    show "?Q \<lparr>proc = s, assignedIds = {}, trackedBlobs = []\<rparr>" using a by simp
  next
    fix q c q'
    assume "?Q q" and "trackBlob st now (js_mul (Fin MAX_TRACKING_DISTANCE_BASE) (js_max (Fin 1) sf)) q c = Inr q'"
    then show "?Q q'" using hist_trackBlob [OF h] by blast
  qed
  then show ?thesis using p(2,3) by (auto simp: prune_filter)
qed

lemma hist_processFrame:
  assumes h: "historyLength st = Fin h" "h \<le> H" "0 \<le> H"
    and a: "\<forall>(k, b) \<in> set (activeBlobs s). real (length (b_history b)) \<le> H"
    and tr: "processFrame s frame st sf now = Inr (res, s')"
  shows "(\<forall>(k, b) \<in> set (activeBlobs s'). real (length (b_history b)) \<le> H)
       \<and> (\<forall>b \<in> set res. real (length (b_history b)) \<le> H)"
proof (cases frame)
  case None
  with tr a show ?thesis by (simp add: processFrame_None)
next
  case (Some contours)
  with tr have "track s (extractBlobs st sf contours) st sf now = Inr (res, s')"
    by (simp add: processFrame_Some)
  with h a show ?thesis by (rule hist_track)
qed

lemma hist_run:
  assumes "\<forall>c \<in> set calls. \<exists>h. historyLength (cl_settings c) = Fin h \<and> h \<le> H" and "0 \<le> H"
    and "\<forall>(k, b) \<in> set (activeBlobs s). real (length (b_history b)) \<le> H"
    and "run s calls = Inr s'"
  shows "\<forall>(k, b) \<in> set (activeBlobs s'). real (length (b_history b)) \<le> H"
  using assms
proof (induction calls arbitrary: s)
  case Nil
  then show ?case by simp
next
  case (Cons c calls)
  obtain res s1 where s1:
    "processFrame s (cl_frame c) (cl_settings c) (cl_scaleFactor c) (cl_now c) = Inr (res, s1)"
    using processFrame_total by blast
  obtain h where hc: "historyLength (cl_settings c) = Fin h" "h \<le> H"
    using Cons.prems(1) by auto
  have a1: "\<forall>(k, b) \<in> set (activeBlobs s1). real (length (b_history b)) \<le> H"
    using hist_processFrame [OF hc Cons.prems(2) Cons.prems(3) s1] by simp
  have r: "run s1 calls = Inr s'" using Cons.prems(4) s1 by simp
  have "\<forall>c \<in> set calls. \<exists>h. historyLength (cl_settings c) = Fin h \<and> h \<le> H"
    using Cons.prems(1) by simp
  from Cons.IH [OF this Cons.prems(2) a1 r] show ?case .
qed


subsection \<open>Candidates that match nothing\<close>


lemma js_sub_nonfinite: "\<not> isFinite a \<Longrightarrow> \<not> isFinite (js_sub a b)"
  by (cases a; cases b) (simp_all add: isFinite_def js_sub_def)

lemma js_hypot_nonfinite:
  "\<not> isFinite a \<or> \<not> isFinite b \<Longrightarrow> js_hypot a b = PInf \<or> js_hypot a b = NaN"
  by (cases a; cases b) (simp_all add: isFinite_def)

lemma distTo_nonfinite:
  assumes "\<not> isFinite (c_x c) \<or> \<not> isFinite (c_y c)"
  shows "\<not> js_lt (distTo c e) md"
proof -
  have "\<not> isFinite (js_sub (c_x c) (b_x e)) \<or> \<not> isFinite (js_sub (c_y c) (b_y e))"
    using assms js_sub_nonfinite by blast
  then have "distTo c e = PInf \<or> distTo c e = NaN"
    unfolding distTo_def by (rule js_hypot_nonfinite)
  then show ?thesis by auto
qed

lemma findClosest_none:
  assumes "\<forall>(k, e) \<in> set xs. k \<notin> A \<longrightarrow> \<not> js_lt (distTo c e) m"
  shows "findClosest c A xs (cid, m) = (cid, m)"
  using findClosest_cases [of c A xs cid m] assms by blast

lemma trackBlob_created:
  assumes "\<forall>(k, e) \<in> set (unassignedBlobs p). \<not> js_lt (distTo c e) md"
  shows "trackBlob st now md p c = Inr (createdPass now p c)"
proof -
  have "\<forall>(k, e) \<in> set (activeBlobs (proc p)). k \<notin> assignedIds p \<longrightarrow> \<not> js_lt (distTo c e) md"
    using assms by (auto simp: unassignedBlobs_def)
  then have "findClosest c (assignedIds p) (activeBlobs (proc p)) (None, md) = (None, md)"
    by (rule findClosest_none)
  then show ?thesis by (simp add: trackBlob_def createdPass_def)
qed

lemma trackBlob_nonfinite:
  assumes "\<not> isFinite (c_x c) \<or> \<not> isFinite (c_y c)"
  shows "trackBlob st now md p c = Inr (createdPass now p c)"
  using distTo_nonfinite [OF assms] by (intro trackBlob_created) blast


subsection \<open>Candidates that match\<close>





subsection \<open>Ids are handed out once\<close>

lemma removed_id_stays_removed:
  assumes inv: "proc_inv s" and step: "processFrame s frame st sf now = Inr (res, s')"
    and k: "k < nextBlobId s" "k \<notin> fst ` set (activeBlobs s)"
  shows "k \<notin> b_id ` set res \<and> k \<notin> fst ` set (activeBlobs s') \<and> k < nextBlobId s'"
proof (cases frame)
  case None
  with step k show ?thesis by (simp add: processFrame_None)
next
  case (Some contours)
  with step have tr: "track s (extractBlobs st sf contours) st sf now = Inr (res, s')"
    by (simp add: processFrame_Some)
  have 1: "k \<notin> b_id ` set res"
    using track_props(5) [OF inv tr] k by force
  have "map_of (activeBlobs s) k = None" using k(2) by (simp add: map_of_eq_None_iff)
  with track_props(6) [OF inv tr 1] have "map_of (activeBlobs s') k = None" by simp
  then have 2: "k \<notin> fst ` set (activeBlobs s')" by (simp add: map_of_eq_None_iff)
  have "k < nextBlobId s'" using track_props(2) [OF inv tr] k(1) by simp
  with 1 2 show ?thesis by simp
qed


subsection \<open>The drift step\<close>

lemma lerpFactor_Fin: "drift settings = Fin d \<Longrightarrow> lerpFactor settings = Fin (8 / 10 - d * (7 / 10))"
  by (simp add: lerpFactor_def js_sub_def)

lemma updateVisual_Fin:
  assumes "drift settings = Fin d" and "b_x blob = Fin x" and "b_visualX blob = Some (Fin vx)"
  shows "b_visualX (updateVisual settings blob) = Some (Fin (vx + (x - vx) * (8 / 10 - d * (7 / 10))))"
  using assms by (simp add: updateVisual_def visualXOf_def visualYOf_def lerpFactor_Fin js_sub_def)

lemma updateVisual_Fin_y:
  assumes "drift settings = Fin d" and "b_y blob = Fin y" and "b_visualY blob = Some (Fin vy)"
  shows "b_visualY (updateVisual settings blob) = Some (Fin (vy + (y - vy) * (8 / 10 - d * (7 / 10))))"
  using assms by (simp add: updateVisual_def visualXOf_def visualYOf_def lerpFactor_Fin js_sub_def)

lemma updateVisual_uninitialised:
  assumes "drift settings = Fin d" and "b_x blob = Fin x" and "b_visualX blob = None"
  shows "b_visualX (updateVisual settings blob) = Some (Fin x)"
  using assms by (simp add: updateVisual_def visualXOf_def visualYOf_def lerpFactor_Fin js_sub_def)

lemma tenth_step_fixed: "(v::real) + (x - v) * (1 / 10) = x \<longleftrightarrow> v = x"
  by (auto simp: field_simps)


subsection \<open>The export loop\<close>

declare renderLoop.simps [simp del]

lemma renderLoop_step:
  "currentTime < duration \<Longrightarrow> \<not> cancelled k \<Longrightarrow>
   renderLoop cancelled paced duration currentTime k =
     [Seek currentTime, ProcessFrame, DrawOverlays (currentTime * 1000),
      commitFrame paced, RenderProgress (progressAt duration currentTime)]
     @ renderLoop cancelled paced duration (currentTime + frameDuration) (Suc k)"
  by (subst renderLoop.simps) simp

lemma renderLoop_stop:
  "\<not> (currentTime < duration \<and> \<not> cancelled k) \<Longrightarrow>
   renderLoop cancelled paced duration currentTime k = []"
  by (subst renderLoop.simps) simp

lemma committedFrames_append:
  "committedFrames (xs @ ys) = committedFrames xs @ committedFrames ys"
  by (induction xs rule: committedFrames.induct) simp_all

lemma reportedProgress_append:
  "reportedProgress (xs @ ys) = reportedProgress xs @ reportedProgress ys"
  by (induction xs rule: reportedProgress.induct) simp_all

lemma renderCompletes_append:
  "renderCompletes (xs @ ys) = renderCompletes xs @ renderCompletes ys"
  by (induction xs rule: renderCompletes.induct) simp_all

lemma filters_commitFrame [simp]:
  "committedFrames (commitFrame paced # es) = committedFrames es"
  "reportedProgress (commitFrame paced # es) = reportedProgress es"
  "renderCompletes (commitFrame paced # es) = renderCompletes es"
  by (simp_all add: commitFrame_def)

lemma renderCompletes_loop:
  "renderCompletes (renderLoop cancelled paced duration currentTime k) = []"
proof (induction cancelled paced duration currentTime k rule: renderLoop.induct)
  case (1 cancelled paced duration currentTime k)
  show ?case
  proof (cases "currentTime < duration \<and> \<not> cancelled k")
    case True
    then show ?thesis using 1 by (simp add: renderLoop_step)
  next
    case False
    then show ?thesis by (simp add: renderLoop_stop)
  qed
qed

lemma length_progress_loop:
  "length (reportedProgress (renderLoop cancelled paced duration currentTime k)) =
   length (committedFrames (renderLoop cancelled paced duration currentTime k))"
proof (induction cancelled paced duration currentTime k rule: renderLoop.induct)
  case (1 cancelled paced duration currentTime k)
  show ?case
  proof (cases "currentTime < duration \<and> \<not> cancelled k")
    case True
    then show ?thesis using 1 by (simp add: renderLoop_step)
  next
    case False
    then show ?thesis by (simp add: renderLoop_stop)
  qed
qed

lemma frames_after_cancel:
  "cancelled k' \<Longrightarrow> k \<le> k' \<Longrightarrow>
   length (committedFrames (renderLoop cancelled paced duration currentTime k)) \<le> k' - k"
proof (induction cancelled paced duration currentTime k rule: renderLoop.induct)
  case (1 cancelled paced duration currentTime k)
  show ?case
  proof (cases "currentTime < duration \<and> \<not> cancelled k")
    case True
    then have "k \<noteq> k'" using "1.prems"(1) by auto
    then have le: "Suc k \<le> k'" using "1.prems"(2) by simp
    have "length (committedFrames (renderLoop cancelled paced duration (currentTime + frameDuration) (Suc k)))
            \<le> k' - Suc k"
      using "1.IH" [OF True "1.prems"(1) le] .
    then show ?thesis using True le by (simp add: renderLoop_step)
  next
    case False
    then show ?thesis by (simp add: renderLoop_stop)
  qed
qed








lemma runRender_Inr:
  assumes "ctxAvailable env" and "runRender env = Inr trace"
  shows "trace =
     [RecorderStart (fst (exportFormat (isTypeSupported env))), VideoPause, DecoderReset,
      ProcessorCleanup]
     @ renderLoop (cancelledAt env) (hasRequestFrame env) (sourceDuration env) 0 0
     @ [RecorderStop, DecoderReset,
        RenderComplete
          (committedFrames (renderLoop (cancelledAt env) (hasRequestFrame env) (sourceDuration env) 0 0))
          (snd (exportFormat (isTypeSupported env)))]"
  using assms by (simp add: runRender_def Let_def split: prod.splits if_splits)

lemma reportedProgress_trace:
  assumes "ctxAvailable env" and "runRender env = Inr trace"
  shows "reportedProgress trace =
     reportedProgress (renderLoop (cancelledAt env) (hasRequestFrame env) (sourceDuration env) 0 0)"
  by (simp add: runRender_Inr [OF assms] reportedProgress_append)

lemma committedFrames_trace:
  assumes "ctxAvailable env" and "runRender env = Inr trace"
  shows "committedFrames trace =
     committedFrames (renderLoop (cancelledAt env) (hasRequestFrame env) (sourceDuration env) 0 0)"
  by (simp add: runRender_Inr [OF assms] committedFrames_append)


lemma renderCompletes_trace:
  assumes "ctxAvailable env" and "runRender env = Inr trace"
  shows "renderCompletes trace =
     [(committedFrames trace, snd (exportFormat (isTypeSupported env)))]"
proof -
  let ?loop = "renderLoop (cancelledAt env) (hasRequestFrame env) (sourceDuration env) 0 0"
  have f: "committedFrames trace = committedFrames ?loop"
    using assms by (rule committedFrames_trace)
  have "renderCompletes trace =
      [(committedFrames ?loop, snd (exportFormat (isTypeSupported env)))]"
    by (simp add: runRender_Inr [OF assms] renderCompletes_append renderCompletes_loop)
  then show ?thesis unfolding f .
qed

section \<open>Claims\<close>

text \<open>
  C1 (ids are unique within one call's result).  The code breaks this: a blob created
  for one candidate is stored in \<open>activeBlobs\<close> but not added to \<open>assignedIds\<close>, so a
  later candidate of the same frame that lies within the matching radius of it is
  matched to it.  In a fresh tracker, a frame with two regions centred at \<open>(10, 10)\<close>
  and \<open>(13, 14)\<close> (5 apart) returns two blobs that both carry id 1, and only one id
  is allocated.
\<close>

theorem C1_duplicate_id_in_one_result:
  "\<exists>res s'. processFrame newCVProcessor (Some [contourAt 10 10 400, contourAt 13 14 400])
               defaultSettings (Fin 1) now = Inr (res, s')
     \<and> map b_id res = [1, 1]
     \<and> map b_x res = [Fin 10, Fin 13] \<and> map b_y res = [Fin 10, Fin 14]
     \<and> nextBlobId s' = 2 \<and> map fst (activeBlobs s') = [1]"
  by (simp add: eval_defs)



text \<open>
  C3 (area normalisation).  A contour becomes a candidate exactly when its area times
  the square of the scale factor (\<open>realArea\<close>) is greater than \<open>minArea\<close>; the
  candidates keep the order of the contours.  Every admitted contour yields exactly
  one returned blob, whose stored area is that scaled area, and a contour that is not
  admitted yields none.  With \<open>minArea = 100\<close>, in a fresh processor, a frame whose
  only region has scaled area 50 returns nothing and leaves the processor unchanged;
  a frame whose only region has scaled area 150 returns one blob, with id 1 and area
  150, which is then the only active blob.
\<close>

theorem C3_area_normalisation:
  "extractBlobs st sf contours =
     map (toCandidate sf) (filter (\<lambda>c. js_gt (realArea sf c) (minArea st)) contours)
   \<and> (\<forall>c. realArea sf c = js_mul (Fin (ct_area c)) (js_mul sf sf))
   \<and> (\<forall>s now res s'. processFrame s (Some contours) st sf now = Inr (res, s') \<longrightarrow>
         map b_area res =
           map (realArea sf) (filter (\<lambda>c. js_gt (realArea sf c) (minArea st)) contours))
   \<and> (\<forall>c now. minArea st = Fin 100 \<and> realArea sf c = Fin 50 \<longrightarrow>
         processFrame newCVProcessor (Some [c]) st sf now = Inr ([], newCVProcessor))
   \<and> (\<forall>c now. minArea st = Fin 100 \<and> realArea sf c = Fin 150 \<longrightarrow>
         processFrame newCVProcessor (Some [c]) st sf now =
           Inr ([newEntity 1 now (toCandidate sf c)],
                \<lparr>nextBlobId = 2, activeBlobs = [(1, newEntity 1 now (toCandidate sf c))]\<rparr>)
         \<and> b_id (newEntity 1 now (toCandidate sf c)) = 1
         \<and> b_area (newEntity 1 now (toCandidate sf c)) = Fin 150)"
proof -
  have 1: "extractBlobs st sf contours =
     map (toCandidate sf) (filter (\<lambda>c. js_gt (realArea sf c) (minArea st)) contours)"
    by (rule extractBlobs_filter)
  have 2: "map b_area res =
           map (realArea sf) (filter (\<lambda>c. js_gt (realArea sf c) (minArea st)) contours)"
    if "processFrame s (Some contours) st sf now = Inr (res, s')" for s now res s'
  proof -
    from that have "track s (extractBlobs st sf contours) st sf now = Inr (res, s')"
      by (simp add: processFrame_Some)
    then have "map b_area res = map c_area (extractBlobs st sf contours)"
      by (rule track_tracked(1))
    then show ?thesis by (simp add: extractBlobs_filter comp_def)
  qed
  have 3: "processFrame newCVProcessor (Some [c]) st sf now = Inr ([], newCVProcessor)"
    if "minArea st = Fin 100 \<and> realArea sf c = Fin 50" for c now
    using that
    by (simp add: processFrame_def track_def js_gt_def newCVProcessor_def)
  have 4: "processFrame newCVProcessor (Some [c]) st sf now =
           Inr ([newEntity 1 now (toCandidate sf c)],
                \<lparr>nextBlobId = 2, activeBlobs = [(1, newEntity 1 now (toCandidate sf c))]\<rparr>)
         \<and> b_id (newEntity 1 now (toCandidate sf c)) = 1
         \<and> b_area (newEntity 1 now (toCandidate sf c)) = Fin 150"
    if "minArea st = Fin 100 \<and> realArea sf c = Fin 150" for c now
    using that
    by (simp add: processFrame_def track_def trackBlob_def js_gt_def newCVProcessor_def
          BLOB_TIMEOUT_def)
  show ?thesis using 1 2 3 4 by (simp add: realArea_def)
qed

theorem C3_witness:
  "minArea defaultSettings = Fin 100
   \<and> realArea (Fin 2) (contourAt 10 10 (25 / 2)) = Fin 50
   \<and> realArea (Fin 2) (contourAt 10 10 (75 / 2)) = Fin 150
   \<and> processFrame newCVProcessor (Some [contourAt 10 10 (25 / 2)]) defaultSettings (Fin 2) 0 =
        Inr ([], newCVProcessor)
   \<and> processFrame newCVProcessor (Some [contourAt 10 10 (75 / 2)]) defaultSettings (Fin 2) 0 =
        Inr ([newEntity 1 0 (toCandidate (Fin 2) (contourAt 10 10 (75 / 2)))],
             \<lparr>nextBlobId = 2,
              activeBlobs = [(1, newEntity 1 0 (toCandidate (Fin 2) (contourAt 10 10 (75 / 2))))]\<rparr>)
   \<and> b_id (newEntity 1 0 (toCandidate (Fin 2) (contourAt 10 10 (75 / 2)))) = 1
   \<and> b_area (newEntity 1 0 (toCandidate (Fin 2) (contourAt 10 10 (75 / 2)))) = Fin 150"
proof -
  have m: "minArea defaultSettings = Fin 100" by (simp add: defaultSettings_def)
  have a: "realArea (Fin 2) (contourAt 10 10 (25 / 2)) = Fin 50"
    by (simp add: realArea_def contourAt_def)
  have b: "realArea (Fin 2) (contourAt 10 10 (75 / 2)) = Fin 150"
    by (simp add: realArea_def contourAt_def)
  note T = C3_area_normalisation [of defaultSettings "Fin 2" "[]"]
  from T have "\<forall>c now. minArea defaultSettings = Fin 100 \<and> realArea (Fin 2) c = Fin 50 \<longrightarrow>
         processFrame newCVProcessor (Some [c]) defaultSettings (Fin 2) now = Inr ([], newCVProcessor)"
    by blast
  with m a have 1: "processFrame newCVProcessor (Some [contourAt 10 10 (25 / 2)]) defaultSettings (Fin 2) 0 =
        Inr ([], newCVProcessor)"
    by blast
  from T have "\<forall>c now. minArea defaultSettings = Fin 100 \<and> realArea (Fin 2) c = Fin 150 \<longrightarrow>
         processFrame newCVProcessor (Some [c]) defaultSettings (Fin 2) now =
           Inr ([newEntity 1 now (toCandidate (Fin 2) c)],
                \<lparr>nextBlobId = 2, activeBlobs = [(1, newEntity 1 now (toCandidate (Fin 2) c))]\<rparr>)
         \<and> b_id (newEntity 1 now (toCandidate (Fin 2) c)) = 1
         \<and> b_area (newEntity 1 now (toCandidate (Fin 2) c)) = Fin 150"
    by blast
  with m b have 2: "processFrame newCVProcessor (Some [contourAt 10 10 (75 / 2)]) defaultSettings (Fin 2) 0 =
           Inr ([newEntity 1 0 (toCandidate (Fin 2) (contourAt 10 10 (75 / 2)))],
                \<lparr>nextBlobId = 2,
                 activeBlobs = [(1, newEntity 1 0 (toCandidate (Fin 2) (contourAt 10 10 (75 / 2))))]\<rparr>)
         \<and> b_id (newEntity 1 0 (toCandidate (Fin 2) (contourAt 10 10 (75 / 2)))) = 1
         \<and> b_area (newEntity 1 0 (toCandidate (Fin 2) (contourAt 10 10 (75 / 2)))) = Fin 150"
    by blast
  from m a b 1 2 show ?thesis by simp
qed

text \<open>
  C4 (the history never exceeds \<open>historyLength\<close>).  The code breaks this when the
  setting is lowered between calls: it evicts with one \<open>history.shift()\<close> under an
  \<open>if\<close>, so each match removes at most the one entry it has just added room for.
  After two calls with \<open>historyLength = 15\<close> the blob has one history entry; a third
  call with \<open>historyLength = 0\<close> matches it again and leaves it, in the returned
  list and in the active set, with one entry.
\<close>

theorem C4_history_exceeds_lowered_length:
  "run newCVProcessor [callAt 10 10 15 0, callAt 13 14 15 40] =
       Inr \<lparr>nextBlobId = 2,
            activeBlobs = [(1, blobAt 1 13 14 40 [\<lparr>p_x = Fin 10, p_y = Fin 10\<rparr>] 10 10)]\<rparr>
   \<and> historyLength (defaultSettings\<lparr>historyLength := Fin 0\<rparr>) = Fin 0
   \<and> processFrame \<lparr>nextBlobId = 2,
          activeBlobs = [(1, blobAt 1 13 14 40 [\<lparr>p_x = Fin 10, p_y = Fin 10\<rparr>] 10 10)]\<rparr>
        (Some [contourAt 16 18 400]) (defaultSettings\<lparr>historyLength := Fin 0\<rparr>) (Fin 1) 80 =
       Inr ([blobAt 1 16 18 80 [\<lparr>p_x = Fin 13, p_y = Fin 14\<rparr>] 10 10],
            \<lparr>nextBlobId = 2,
             activeBlobs = [(1, blobAt 1 16 18 80 [\<lparr>p_x = Fin 13, p_y = Fin 14\<rparr>] 10 10)]\<rparr>)
   \<and> length (b_history (blobAt 1 16 18 80 [\<lparr>p_x = Fin 13, p_y = Fin 14\<rparr>] 10 10)) = 1"
  by (simp add: eval_defs)

text \<open>
  What the eviction does guarantee.  If no call so far was given a \<open>historyLength\<close>
  larger than the current call's \<open>h\<close> (in particular, if the setting never changes),
  and \<open>h\<close> is not negative, then after the call every active blob and every returned
  blob has a history of at most \<open>h\<close> entries; for \<open>h = 0\<close> every history is empty.
\<close>

theorem history_bounded_by_largest_length:
  assumes "\<forall>c \<in> set calls. \<exists>h'. historyLength (cl_settings c) = Fin h' \<and> h' \<le> h"
    and "historyLength st = Fin h" and "0 \<le> h"
    and "run newCVProcessor calls = Inr s"
    and "processFrame s frame st sf now = Inr (res, s')"
  shows "(\<forall>(k, b) \<in> set (activeBlobs s'). real (length (b_history b)) \<le> h)
       \<and> (\<forall>b \<in> set res. real (length (b_history b)) \<le> h)
       \<and> (h = 0 \<longrightarrow> (\<forall>(k, b) \<in> set (activeBlobs s'). b_history b = [])
                    \<and> (\<forall>b \<in> set res. b_history b = []))"
proof -
  have "\<forall>(k, b) \<in> set (activeBlobs newCVProcessor). real (length (b_history b)) \<le> h"
    by (simp add: newCVProcessor_def)
  with assms(1,3) have "\<forall>(k, b) \<in> set (activeBlobs s). real (length (b_history b)) \<le> h"
    using assms(4) by (rule hist_run)
  moreover have "h \<le> h" by simp
  ultimately have
    "(\<forall>(k, b) \<in> set (activeBlobs s'). real (length (b_history b)) \<le> h)
       \<and> (\<forall>b \<in> set res. real (length (b_history b)) \<le> h)"
    using assms(2,3,5) hist_processFrame by blast
  then show ?thesis by auto
qed

theorem history_bounded_witness:
  "historyLength (cl_settings (callAt 10 10 1 0)) = Fin 1
   \<and> historyLength (cl_settings (callAt 13 14 1 40)) = Fin 1
   \<and> historyLength (defaultSettings\<lparr>historyLength := Fin 1\<rparr>) = Fin 1
   \<and> run newCVProcessor [callAt 10 10 1 0, callAt 13 14 1 40] =
       Inr \<lparr>nextBlobId = 2,
            activeBlobs = [(1, blobAt 1 13 14 40 [\<lparr>p_x = Fin 10, p_y = Fin 10\<rparr>] 10 10)]\<rparr>
   \<and> processFrame \<lparr>nextBlobId = 2,
          activeBlobs = [(1, blobAt 1 13 14 40 [\<lparr>p_x = Fin 10, p_y = Fin 10\<rparr>] 10 10)]\<rparr>
        (Some [contourAt 16 18 400]) (defaultSettings\<lparr>historyLength := Fin 1\<rparr>) (Fin 1) 80 =
       Inr ([blobAt 1 16 18 80 [\<lparr>p_x = Fin 13, p_y = Fin 14\<rparr>] 10 10],
            \<lparr>nextBlobId = 2,
             activeBlobs = [(1, blobAt 1 16 18 80 [\<lparr>p_x = Fin 13, p_y = Fin 14\<rparr>] 10 10)]\<rparr>)
   \<and> real (length (b_history (blobAt 1 16 18 80 [\<lparr>p_x = Fin 13, p_y = Fin 14\<rparr>] 10 10))) \<le> 1"
proof -
  have c: "\<forall>c \<in> set [callAt 10 10 1 0, callAt 13 14 1 40].
             \<exists>h'. historyLength (cl_settings c) = Fin h' \<and> h' \<le> 1"
    by (simp add: callAt_def)
  have st: "historyLength (defaultSettings\<lparr>historyLength := Fin 1\<rparr>) = Fin 1" by simp
  have h: "(0::real) \<le> 1" by simp
  have r: "run newCVProcessor [callAt 10 10 1 0, callAt 13 14 1 40] =
       Inr \<lparr>nextBlobId = 2,
            activeBlobs = [(1, blobAt 1 13 14 40 [\<lparr>p_x = Fin 10, p_y = Fin 10\<rparr>] 10 10)]\<rparr>"
    by (simp add: eval_defs)
  have p: "processFrame \<lparr>nextBlobId = 2,
          activeBlobs = [(1, blobAt 1 13 14 40 [\<lparr>p_x = Fin 10, p_y = Fin 10\<rparr>] 10 10)]\<rparr>
        (Some [contourAt 16 18 400]) (defaultSettings\<lparr>historyLength := Fin 1\<rparr>) (Fin 1) 80 =
       Inr ([blobAt 1 16 18 80 [\<lparr>p_x = Fin 13, p_y = Fin 14\<rparr>] 10 10],
            \<lparr>nextBlobId = 2,
             activeBlobs = [(1, blobAt 1 16 18 80 [\<lparr>p_x = Fin 13, p_y = Fin 14\<rparr>] 10 10)]\<rparr>)"
    by (simp add: eval_defs)
  from history_bounded_by_largest_length [OF c st h r p] r p show ?thesis
    by (simp add: callAt_def)
qed

text \<open>
  C5, as stated, fails on the code.  A blob created at time 0 and not matched since is,
  at time 1000, more than \<open>BLOB_TIMEOUT\<close> past its \<open>lastSeen\<close>.  The matching pass
  of the call at time 1000 still runs over it, since the prune comes last: a region
  5 px away is matched to it, and the blob is returned with its old id and stays in
  the active set.  And a call that returns early (\<open>frame = None\<close>) never reaches the
  prune: the blob stays as well.
\<close>

theorem C5_counterexample:
  "run newCVProcessor [callAt 10 10 15 0] =
     Inr \<lparr>nextBlobId = 2, activeBlobs = [(1, blobAt 1 10 10 0 [] 10 10)]\<rparr>
   \<and> 1000 - b_lastSeen (blobAt 1 10 10 0 [] 10 10) > BLOB_TIMEOUT
   \<and> processFrame \<lparr>nextBlobId = 2, activeBlobs = [(1, blobAt 1 10 10 0 [] 10 10)]\<rparr>
         (Some [contourAt 13 14 400]) defaultSettings (Fin 1) 1000 =
       Inr ([blobAt 1 13 14 1000 [\<lparr>p_x = Fin 10, p_y = Fin 10\<rparr>] 10 10],
            \<lparr>nextBlobId = 2,
             activeBlobs = [(1, blobAt 1 13 14 1000 [\<lparr>p_x = Fin 10, p_y = Fin 10\<rparr>] 10 10)]\<rparr>)
   \<and> processFrame \<lparr>nextBlobId = 2, activeBlobs = [(1, blobAt 1 10 10 0 [] 10 10)]\<rparr>
         None defaultSettings (Fin 1) 1000 =
       Inr ([], \<lparr>nextBlobId = 2, activeBlobs = [(1, blobAt 1 10 10 0 [] 10 10)]\<rparr>)"
  by (simp add: eval_defs)

text \<open>
  C5, amended.  Let \<open>s\<close> be the state after any sequence of calls.  A call that
  reaches the tracking step, returning \<open>res\<close> and leaving \<open>s'\<close>, removes a blob
  of \<open>s\<close> if and only if no candidate of the call was matched to it and
  \<open>now - lastSeen\<close> exceeds \<open>BLOB_TIMEOUT\<close>: the timeout is read after the matching
  pass, so a blob matched in the call, however long unseen before, is refreshed and
  kept.  A blob not matched in the call that is still active afterwards is unchanged,
  every blob returned stays active, and nothing else is deleted.  A call that returns
  early, before the tracking step, deletes nothing.
\<close>

theorem C5_prune_after_matching:
  assumes "run newCVProcessor calls = Inr s"
    and "processFrame s (Some contours) st sf now = Inr (res, s')"
  shows "(\<forall>k b. map_of (activeBlobs s) k = Some b \<longrightarrow>
            (k \<notin> fst ` set (activeBlobs s') \<longleftrightarrow>
               k \<notin> b_id ` set res \<and> now - b_lastSeen b > BLOB_TIMEOUT))
       \<and> (\<forall>k b. k \<notin> b_id ` set res \<longrightarrow> map_of (activeBlobs s') k = Some b \<longrightarrow>
            map_of (activeBlobs s) k = Some b)
       \<and> (\<forall>b \<in> set res. b_id b \<in> fst ` set (activeBlobs s'))
       \<and> processFrame s None st sf now = Inr ([], s)"
proof -
  have inv: "proc_inv s" using assms(1) by (rule reachable_inv)
  have tr: "track s (extractBlobs st sf contours) st sf now = Inr (res, s')"
    using assms(2) by (simp add: processFrame_Some)
  note un = track_props(6) [OF inv tr]
  have stay: "b_id b \<in> fst ` set (activeBlobs s')" if "b \<in> set res" for b
    using track_props(4) [OF inv tr that] by (auto simp: keys_iff_map_of)
  have 1: "k \<notin> fst ` set (activeBlobs s') \<longleftrightarrow>
               k \<notin> b_id ` set res \<and> now - b_lastSeen b > BLOB_TIMEOUT"
    if "map_of (activeBlobs s) k = Some b" for k b
  proof (cases "k \<in> b_id ` set res")
    case True
    then show ?thesis using stay by auto
  next
    case False
    then show ?thesis using un [OF False] that by (simp add: keys_iff_map_of)
  qed
  have 2: "map_of (activeBlobs s) k = Some b"
    if "k \<notin> b_id ` set res" "map_of (activeBlobs s') k = Some b" for k b
    using un [OF that(1)] that(2) by (auto split: option.splits if_splits)
  show ?thesis using 1 2 stay by (simp add: processFrame_None)
qed

theorem C5_witness:
  "run newCVProcessor [callAt 10 10 15 0] =
     Inr \<lparr>nextBlobId = 2, activeBlobs = [(1, blobAt 1 10 10 0 [] 10 10)]\<rparr>
   \<and> processFrame \<lparr>nextBlobId = 2, activeBlobs = [(1, blobAt 1 10 10 0 [] 10 10)]\<rparr>
         (Some [contourAt 600 600 400]) defaultSettings (Fin 1) 1000 =
       Inr ([blobAt 2 600 600 1000 [] 600 600],
            \<lparr>nextBlobId = 3, activeBlobs = [(2, blobAt 2 600 600 1000 [] 600 600)]\<rparr>)
   \<and> map_of (activeBlobs \<lparr>nextBlobId = 2, activeBlobs = [(1, blobAt 1 10 10 0 [] 10 10)]\<rparr>) 1 =
       Some (blobAt 1 10 10 0 [] 10 10)
   \<and> 1000 - b_lastSeen (blobAt 1 10 10 0 [] 10 10) > BLOB_TIMEOUT
   \<and> 1 \<notin> b_id ` set [blobAt 2 600 600 1000 [] 600 600]
   \<and> 1 \<notin> fst ` set (activeBlobs \<lparr>nextBlobId = 3, activeBlobs = [(2, blobAt 2 600 600 1000 [] 600 600)]\<rparr>)"
proof -
  have r: "run newCVProcessor [callAt 10 10 15 0] =
     Inr \<lparr>nextBlobId = 2, activeBlobs = [(1, blobAt 1 10 10 0 [] 10 10)]\<rparr>"
    by (simp add: eval_defs)
  have p: "processFrame \<lparr>nextBlobId = 2, activeBlobs = [(1, blobAt 1 10 10 0 [] 10 10)]\<rparr>
         (Some [contourAt 600 600 400]) defaultSettings (Fin 1) 1000 =
       Inr ([blobAt 2 600 600 1000 [] 600 600],
            \<lparr>nextBlobId = 3, activeBlobs = [(2, blobAt 2 600 600 1000 [] 600 600)]\<rparr>)"
    by (simp add: eval_defs)
  from C5_prune_after_matching [OF r p] r p show ?thesis
    by (simp add: blobAt_def BLOB_TIMEOUT_def)
qed

text \<open>
  C6, as stated, fails on the code.  With \<open>jitter = 0\<close> and \<open>drift = 1\<close> the lerp
  factor is \<open>0.8 - 0.7 = 0.1\<close>, its smallest value (\<open>drift\<close> is the lag: the larger
  it is, the slower the display position follows).  A blob at \<open>(10, 10)\<close> displayed
  at \<open>(0, 0)\<close> is displayed at \<open>(1, 1)\<close> after one update, not at \<open>(10, 10)\<close>, and
  is drawn there.  (Doubles round \<open>0.8 - 0.7\<close> to a value within \<open>1e-16\<close> of 0.1;
  rounding is not modelled.)
\<close>

theorem C6_counterexample:
  "drift (defaultSettings\<lparr>jitter := Fin 0, drift := Fin 1\<rparr>) = Fin 1
   \<and> jitter (defaultSettings\<lparr>jitter := Fin 0, drift := Fin 1\<rparr>) = Fin 0
   \<and> b_x (blobAt 1 10 10 0 [] 0 0) = Fin 10
   \<and> b_visualX (blobAt 1 10 10 0 [] 0 0) = Some (Fin 0)
   \<and> lerpFactor (defaultSettings\<lparr>jitter := Fin 0, drift := Fin 1\<rparr>) = Fin (1 / 10)
   \<and> b_visualX (updateVisual (defaultSettings\<lparr>jitter := Fin 0, drift := Fin 1\<rparr>)
        (blobAt 1 10 10 0 [] 0 0)) = Some (Fin 1)
   \<and> b_visualY (updateVisual (defaultSettings\<lparr>jitter := Fin 0, drift := Fin 1\<rparr>)
        (blobAt 1 10 10 0 [] 0 0)) = Some (Fin 1)
   \<and> b_visualX (updateVisual (defaultSettings\<lparr>jitter := Fin 0, drift := Fin 1\<rparr>)
        (blobAt 1 10 10 0 [] 0 0)) \<noteq> Some (b_x (blobAt 1 10 10 0 [] 0 0))
   \<and> snd (drawOverlay (defaultSettings\<lparr>jitter := Fin 0, drift := Fin 1\<rparr>) 0
        (blobAt 1 10 10 0 [] 0 0)) = (Fin 1, Fin 1)"
  by (simp add: defaultSettings_def blobAt_def updateVisual_def visualXOf_def visualYOf_def
        lerpFactor_def js_sub_def drawOverlay_def Let_def noiseX_def noiseY_def)

text \<open>
  C6, amended.  One call of the update replaces the display position by
  \<open>displayPos + (truePos - displayPos) * lerpFactor\<close> with
  \<open>lerpFactor = 0.8 - drift * 0.7\<close>, on each axis, and with \<open>jitter = 0\<close> the blob
  is drawn exactly there.  With \<open>drift = 1\<close> the factor is 0.1: the display position
  moves one tenth of the way to the true position, and equals the true position after
  the call if and only if it was equal before.  (A display position that is still
  undefined is first set to the true position, and then stays there:
  \<open>updateVisual_uninitialised\<close>.)
\<close>

theorem C6_one_update_moves_by_lerpFactor:
  assumes "drift settings = Fin d"
    and "b_x blob = Fin x" and "b_y blob = Fin y"
    and "b_visualX blob = Some (Fin vx)" and "b_visualY blob = Some (Fin vy)"
  shows "lerpFactor settings = Fin (8 / 10 - d * (7 / 10))
       \<and> b_visualX (updateVisual settings blob) = Some (Fin (vx + (x - vx) * (8 / 10 - d * (7 / 10))))
       \<and> b_visualY (updateVisual settings blob) = Some (Fin (vy + (y - vy) * (8 / 10 - d * (7 / 10))))
       \<and> (jitter settings = Fin 0 \<longrightarrow>
           snd (drawOverlay settings time blob) =
             (Fin (vx + (x - vx) * (8 / 10 - d * (7 / 10))),
              Fin (vy + (y - vy) * (8 / 10 - d * (7 / 10)))))
       \<and> (d = 1 \<longrightarrow>
           lerpFactor settings = Fin (1 / 10)
           \<and> b_visualX (updateVisual settings blob) = Some (Fin (vx + (x - vx) * (1 / 10)))
           \<and> b_visualY (updateVisual settings blob) = Some (Fin (vy + (y - vy) * (1 / 10)))
           \<and> (b_visualX (updateVisual settings blob) = Some (b_x blob) \<longleftrightarrow> vx = x)
           \<and> (b_visualY (updateVisual settings blob) = Some (b_y blob) \<longleftrightarrow> vy = y))"
proof -
  have l: "lerpFactor settings = Fin (8 / 10 - d * (7 / 10))"
    using assms(1) by (rule lerpFactor_Fin)
  have vx: "b_visualX (updateVisual settings blob) = Some (Fin (vx + (x - vx) * (8 / 10 - d * (7 / 10))))"
    using assms(1,2,4) by (rule updateVisual_Fin)
  have vy: "b_visualY (updateVisual settings blob) = Some (Fin (vy + (y - vy) * (8 / 10 - d * (7 / 10))))"
    using assms(1,3,5) by (rule updateVisual_Fin_y)
  have dr: "snd (drawOverlay settings time blob) =
             (Fin (vx + (x - vx) * (8 / 10 - d * (7 / 10))),
              Fin (vy + (y - vy) * (8 / 10 - d * (7 / 10))))"
    if "jitter settings = Fin 0"
    using that vx vy
    by (simp add: drawOverlay_def Let_def visualXOf_def visualYOf_def noiseX_def noiseY_def)
  have one: "lerpFactor settings = Fin (1 / 10)
           \<and> b_visualX (updateVisual settings blob) = Some (Fin (vx + (x - vx) * (1 / 10)))
           \<and> b_visualY (updateVisual settings blob) = Some (Fin (vy + (y - vy) * (1 / 10)))
           \<and> (b_visualX (updateVisual settings blob) = Some (b_x blob) \<longleftrightarrow> vx = x)
           \<and> (b_visualY (updateVisual settings blob) = Some (b_y blob) \<longleftrightarrow> vy = y)"
    if "d = 1"
  proof -
    have f: "(8::real) / 10 - d * (7 / 10) = 1 / 10" using that by simp
    show ?thesis
      using l vx vy assms(2,3) tenth_step_fixed [of vx x] tenth_step_fixed [of vy y]
      unfolding f by simp
  qed
  from l vx vy dr one show ?thesis by blast
qed

theorem C6_witness:
  "drift (defaultSettings\<lparr>jitter := Fin 0, drift := Fin 1\<rparr>) = Fin 1
   \<and> b_x (blobAt 1 10 20 0 [] 0 0) = Fin 10 \<and> b_y (blobAt 1 10 20 0 [] 0 0) = Fin 20
   \<and> b_visualX (blobAt 1 10 20 0 [] 0 0) = Some (Fin 0)
   \<and> b_visualY (blobAt 1 10 20 0 [] 0 0) = Some (Fin 0)
   \<and> b_visualX (updateVisual (defaultSettings\<lparr>jitter := Fin 0, drift := Fin 1\<rparr>)
        (blobAt 1 10 20 0 [] 0 0)) = Some (Fin 1)
   \<and> b_visualY (updateVisual (defaultSettings\<lparr>jitter := Fin 0, drift := Fin 1\<rparr>)
        (blobAt 1 10 20 0 [] 0 0)) = Some (Fin 2)"
proof -
  let ?st = "defaultSettings\<lparr>jitter := Fin 0, drift := Fin 1\<rparr>"
  let ?b = "blobAt 1 10 20 0 [] 0 0"
  have a: "drift ?st = Fin 1" by simp
  have b: "b_x ?b = Fin 10" "b_y ?b = Fin 20" "b_visualX ?b = Some (Fin 0)" "b_visualY ?b = Some (Fin 0)"
    by (simp_all add: blobAt_def)
  from C6_one_update_moves_by_lerpFactor [OF a b, of 0] a b show ?thesis by simp
qed

text \<open>
  C7, as stated, fails on the code: nothing in \<open>processFrame\<close> tests a coordinate
  for finiteness.  With \<open>scaleFactor = Infinity\<close> a region of a fresh processor's
  first frame becomes a blob at \<open>(Infinity, Infinity)\<close>, stored and returned with
  id 1; and a candidate whose \<open>x\<close> is NaN, tracked next to an existing blob, becomes
  blob 2, stored and returned.
\<close>

theorem C7_counterexample:
  "processFrame newCVProcessor (Some [contourAt 10 10 400]) defaultSettings PInf 0 =
     Inr ([\<lparr>b_id = 1, b_x = PInf, b_y = PInf, b_w = PInf, b_h = PInf, b_area = PInf,
            b_history = [], b_lastSeen = 0, b_visualX = Some PInf, b_visualY = Some PInf\<rparr>],
          \<lparr>nextBlobId = 2,
           activeBlobs = [(1, \<lparr>b_id = 1, b_x = PInf, b_y = PInf, b_w = PInf, b_h = PInf,
             b_area = PInf, b_history = [], b_lastSeen = 0,
             b_visualX = Some PInf, b_visualY = Some PInf\<rparr>)]\<rparr>)
   \<and> track \<lparr>nextBlobId = 2, activeBlobs = [(1, blobAt 1 10 10 0 [] 10 10)]\<rparr>
        [\<lparr>c_x = NaN, c_y = Fin 10, c_w = Fin 20, c_h = Fin 20, c_area = Fin 400\<rparr>]
        defaultSettings (Fin 1) 40 =
      Inr ([\<lparr>b_id = 2, b_x = NaN, b_y = Fin 10, b_w = Fin 20, b_h = Fin 20, b_area = Fin 400,
             b_history = [], b_lastSeen = 40, b_visualX = Some NaN, b_visualY = Some (Fin 10)\<rparr>],
           \<lparr>nextBlobId = 3,
            activeBlobs = [(1, blobAt 1 10 10 0 [] 10 10),
              (2, \<lparr>b_id = 2, b_x = NaN, b_y = Fin 10, b_w = Fin 20, b_h = Fin 20, b_area = Fin 400,
                   b_history = [], b_lastSeen = 40, b_visualX = Some NaN,
                   b_visualY = Some (Fin 10)\<rparr>)]\<rparr>)"
  by (simp add: eval_defs is_infinite_def)

text \<open>
  C7, amended.  \<open>processFrame\<close> never raises: it returns a list and a state for
  every state, frame, settings, scale factor and clock.  A candidate whose \<open>x\<close> or
  \<open>y\<close> is NaN or infinite is never matched to an existing blob (its distance to
  every blob is NaN or \<open>Infinity\<close>, which is not below any radius), but it is not
  ignored: it always creates a new blob under the next id, stored in \<open>activeBlobs\<close>,
  and every candidate of the pass, finite or not, appears in the returned list with
  its coordinates.
\<close>

theorem C7_nonfinite_candidates_spawn_blobs:
  "(\<exists>res s'. processFrame s frame st sf now = Inr (res, s'))
   \<and> (\<forall>c p md. \<not> isFinite (c_x c) \<or> \<not> isFinite (c_y c) \<longrightarrow>
         trackBlob st now md p c = Inr (createdPass now p c))
   \<and> (\<forall>cs res s'. track s cs st sf now = Inr (res, s') \<longrightarrow>
         map b_x res = map c_x cs \<and> map b_y res = map c_y cs)"
  using processFrame_total [of s frame st sf now] trackBlob_nonfinite track_tracked(2,3)
  by blast

theorem C7_witness:
  "\<not> isFinite (c_x \<lparr>c_x = NaN, c_y = Fin 10, c_w = Fin 20, c_h = Fin 20, c_area = Fin 400\<rparr>)
   \<and> trackBlob defaultSettings 40 (Fin 100)
        \<lparr>proc = \<lparr>nextBlobId = 2, activeBlobs = [(1, blobAt 1 10 10 0 [] 10 10)]\<rparr>,
         assignedIds = {}, trackedBlobs = []\<rparr>
        \<lparr>c_x = NaN, c_y = Fin 10, c_w = Fin 20, c_h = Fin 20, c_area = Fin 400\<rparr> =
      Inr (createdPass 40
        \<lparr>proc = \<lparr>nextBlobId = 2, activeBlobs = [(1, blobAt 1 10 10 0 [] 10 10)]\<rparr>,
         assignedIds = {}, trackedBlobs = []\<rparr>
        \<lparr>c_x = NaN, c_y = Fin 10, c_w = Fin 20, c_h = Fin 20, c_area = Fin 400\<rparr>)
   \<and> track \<lparr>nextBlobId = 2, activeBlobs = [(1, blobAt 1 10 10 0 [] 10 10)]\<rparr>
        [\<lparr>c_x = NaN, c_y = Fin 10, c_w = Fin 20, c_h = Fin 20, c_area = Fin 400\<rparr>]
        defaultSettings (Fin 1) 40 =
      Inr ([newEntity 2 40 \<lparr>c_x = NaN, c_y = Fin 10, c_w = Fin 20, c_h = Fin 20, c_area = Fin 400\<rparr>],
           \<lparr>nextBlobId = 3,
            activeBlobs = [(1, blobAt 1 10 10 0 [] 10 10),
              (2, newEntity 2 40 \<lparr>c_x = NaN, c_y = Fin 10, c_w = Fin 20, c_h = Fin 20, c_area = Fin 400\<rparr>)]\<rparr>)
   \<and> map b_x [newEntity 2 40 \<lparr>c_x = NaN, c_y = Fin 10, c_w = Fin 20, c_h = Fin 20, c_area = Fin 400\<rparr>]
       = map c_x [\<lparr>c_x = NaN, c_y = Fin 10, c_w = Fin 20, c_h = Fin 20, c_area = Fin 400\<rparr>]"
proof -
  let ?c = "\<lparr>c_x = NaN, c_y = Fin 10, c_w = Fin 20, c_h = Fin 20, c_area = Fin 400\<rparr>"
  let ?s = "\<lparr>nextBlobId = 2, activeBlobs = [(1, blobAt 1 10 10 0 [] 10 10)]\<rparr>"
  have n: "\<not> isFinite (c_x ?c)" by (simp add: isFinite_def)
  have t: "track ?s [?c] defaultSettings (Fin 1) 40 =
      Inr ([newEntity 2 40 ?c],
           \<lparr>nextBlobId = 3, activeBlobs = [(1, blobAt 1 10 10 0 [] 10 10), (2, newEntity 2 40 ?c)]\<rparr>)"
    by (simp add: track_def trackBlob_def blobAt_def distTo_def js_sub_def is_infinite_def
          js_max_def MAX_TRACKING_DISTANCE_BASE_def BLOB_TIMEOUT_def)
  note T = C7_nonfinite_candidates_spawn_blobs [of ?s None defaultSettings "Fin 1" 40]
  from T have "\<forall>c p md. \<not> isFinite (c_x c) \<or> \<not> isFinite (c_y c) \<longrightarrow>
         trackBlob defaultSettings 40 md p c = Inr (createdPass 40 p c)"
    by blast
  with n have 1: "trackBlob defaultSettings 40 (Fin 100)
        \<lparr>proc = ?s, assignedIds = {}, trackedBlobs = []\<rparr> ?c =
      Inr (createdPass 40 \<lparr>proc = ?s, assignedIds = {}, trackedBlobs = []\<rparr> ?c)"
    by blast
  from T have "\<forall>cs res s'. track ?s cs defaultSettings (Fin 1) 40 = Inr (res, s') \<longrightarrow>
         map b_x res = map c_x cs \<and> map b_y res = map c_y cs"
    by blast
  with t have 2: "map b_x [newEntity 2 40 ?c] = map c_x [?c]" by blast
  from n 1 t 2 show ?thesis by blast
qed

text \<open>
  C8, as stated, fails on the code: the flag \<open>cancelled\<close> only ends the loop, and
  what follows the loop runs in either case.  An export of a 2 s video that is
  cancelled after its first frame still stops the recorder, whose \<open>onstop\<close> handler
  calls \<open>onRenderComplete\<close> with the one frame recorded so far.
\<close>

theorem C8_counterexample:
  "ctxAvailable (exampleEnv 2 (cancelledFrom 1))
   \<and> cancelledAt (exampleEnv 2 (cancelledFrom 1)) 1
   \<and> runRender (exampleEnv 2 (cancelledFrom 1)) =
       Inr [RecorderStart ''video/webm'', VideoPause, DecoderReset, ProcessorCleanup,
            Seek 0, ProcessFrame, DrawOverlays 0, RequestFrame, RenderProgress 0,
            RecorderStop, DecoderReset, RenderComplete [0] ''webm'']"
  by (simp add: exampleEnv_def cancelledFrom_def runRender_def sourceDuration_def exportFormat_def
        mp4Types_def webmOnly_def renderLoop_step renderLoop_stop frameDuration_def targetFps_def
        progressAt_def js_round_def commitFrame_def)

text \<open>
  C8, amended.  Whenever the canvas context is available and the recorder is
  constructed, cancelled or not, a run of \<open>runRender\<close> ends by stopping the
  recorder, setting the video back to position 0, and exactly one call of the
  render-complete callback, whose artifact holds the frames committed before the loop
  ended.  Cancellation only ends the loop: if the flag is set at the \<open>k\<close>-th
  evaluation of the loop condition, at most \<open>k\<close> frames were sought, processed and
  reported.
\<close>

theorem C8_cancel_stops_loop_but_finalises:
  assumes "ctxAvailable env" and "runRender env = Inr trace"
  shows "renderCompletes trace =
           [(committedFrames trace, snd (exportFormat (isTypeSupported env)))]
       \<and> drop (length trace - 3) trace =
           [RecorderStop, DecoderReset,
            RenderComplete (committedFrames trace) (snd (exportFormat (isTypeSupported env)))]
       \<and> (\<forall>k. cancelledAt env k \<longrightarrow>
             length (committedFrames trace) \<le> k \<and> length (reportedProgress trace) \<le> k)"
proof -
  let ?loop = "renderLoop (cancelledAt env) (hasRequestFrame env) (sourceDuration env) 0 0"
  have f: "committedFrames trace = committedFrames ?loop"
    using assms by (rule committedFrames_trace)
  have p: "reportedProgress trace = reportedProgress ?loop"
    using assms by (rule reportedProgress_trace)
  have 1: "renderCompletes trace =
           [(committedFrames trace, snd (exportFormat (isTypeSupported env)))]"
    using assms by (rule renderCompletes_trace)
  have 2: "drop (length trace - 3) trace =
           [RecorderStop, DecoderReset,
            RenderComplete (committedFrames trace) (snd (exportFormat (isTypeSupported env)))]"
    unfolding f by (simp add: runRender_Inr [OF assms])
  have 3: "length (committedFrames trace) \<le> k \<and> length (reportedProgress trace) \<le> k"
    if "cancelledAt env k" for k
    unfolding f p length_progress_loop
    using frames_after_cancel [of "cancelledAt env" k 0 "hasRequestFrame env" "sourceDuration env" 0] that
    by simp
  from 1 2 3 show ?thesis by blast
qed

theorem C8_witness:
  "ctxAvailable (exampleEnv 2 (cancelledFrom 1))
   \<and> cancelledAt (exampleEnv 2 (cancelledFrom 1)) 1
   \<and> runRender (exampleEnv 2 (cancelledFrom 1)) =
       Inr [RecorderStart ''video/webm'', VideoPause, DecoderReset, ProcessorCleanup,
            Seek 0, ProcessFrame, DrawOverlays 0, RequestFrame, RenderProgress 0,
            RecorderStop, DecoderReset, RenderComplete [0] ''webm'']
   \<and> renderCompletes
        [RecorderStart ''video/webm'', VideoPause, DecoderReset, ProcessorCleanup,
         Seek 0, ProcessFrame, DrawOverlays 0, RequestFrame, RenderProgress 0,
         RecorderStop, DecoderReset, RenderComplete [0] ''webm''] = [([0], ''webm'')]
   \<and> length (committedFrames
        [RecorderStart ''video/webm'', VideoPause, DecoderReset, ProcessorCleanup,
         Seek 0, ProcessFrame, DrawOverlays 0, RequestFrame, RenderProgress 0,
         RecorderStop, DecoderReset, RenderComplete [0] ''webm'']) \<le> 1"
proof -
  let ?env = "exampleEnv 2 (cancelledFrom 1)"
  let ?trace = "[RecorderStart ''video/webm'', VideoPause, DecoderReset, ProcessorCleanup,
         Seek 0, ProcessFrame, DrawOverlays 0, RequestFrame, RenderProgress 0,
         RecorderStop, DecoderReset, RenderComplete [0] ''webm'']"
  have a: "ctxAvailable ?env" by (simp add: exampleEnv_def)
  have c: "cancelledAt ?env 1" by (simp add: exampleEnv_def cancelledFrom_def)
  have r: "runRender ?env = Inr ?trace"
    by (simp add: exampleEnv_def cancelledFrom_def runRender_def sourceDuration_def exportFormat_def
        mp4Types_def webmOnly_def renderLoop_step renderLoop_stop frameDuration_def targetFps_def
        progressAt_def js_round_def commitFrame_def)
  have e: "snd (exportFormat (isTypeSupported ?env)) = ''webm''"
    by (simp add: exampleEnv_def exportFormat_def mp4Types_def webmOnly_def)
  from C8_cancel_stops_loop_but_finalises [OF a r] c
  have "renderCompletes ?trace =
           [(committedFrames ?trace, snd (exportFormat (isTypeSupported ?env)))]
       \<and> length (committedFrames ?trace) \<le> 1"
    by blast
  with a c r e show ?thesis by simp
qed



text \<open>
  C10 (a returned blob is still active when the call returns).  Let \<open>s\<close> be the
  state of a processor after any sequence of calls, and let one more call return the
  list \<open>res\<close> and leave the state \<open>s'\<close>.  Every blob of \<open>res\<close> was matched or
  created in this call, so its \<open>lastSeen\<close> is the call's \<open>now\<close>; \<open>now - lastSeen\<close>
  is 0, which does not exceed \<open>BLOB_TIMEOUT\<close>, so the prune keeps it: its id is a key
  of \<open>activeBlobs\<close> in \<open>s'\<close>, and the blob stored there was last seen at \<open>now\<close>.
  (Blobs are identified by id: when two entries of \<open>res\<close> carry the same id, see C1,
  the stored blob is the later one.)
\<close>

theorem C10_returned_blobs_stay_active:
  assumes "run newCVProcessor calls = Inr s"
    and "processFrame s frame st sf now = Inr (res, s')"
  shows "0 < BLOB_TIMEOUT \<and>
         (\<forall>b \<in> set res.
           b_lastSeen b = now \<and> \<not> now - b_lastSeen b > BLOB_TIMEOUT \<and>
           b_id b \<in> fst ` set (activeBlobs s') \<and>
           (\<exists>b'. map_of (activeBlobs s') (b_id b) = Some b' \<and> b_lastSeen b' = now))"
proof (cases frame)
  case None
  with assms(2) show ?thesis by (simp add: processFrame_None BLOB_TIMEOUT_def)
next
  case (Some contours)
  have inv: "proc_inv s" using assms(1) by (rule reachable_inv)
  have tr: "track s (extractBlobs st sf contours) st sf now = Inr (res, s')"
    using assms(2) Some by (simp add: processFrame_Some)
  have "\<forall>b \<in> set res.
           b_lastSeen b = now \<and> \<not> now - b_lastSeen b > BLOB_TIMEOUT \<and>
           b_id b \<in> fst ` set (activeBlobs s') \<and>
           (\<exists>b'. map_of (activeBlobs s') (b_id b) = Some b' \<and> b_lastSeen b' = now)"
  proof
    fix b assume b: "b \<in> set res"
    have 1: "b_lastSeen b = now" using track_props(3) [OF inv tr b] .
    obtain b' where b': "map_of (activeBlobs s') (b_id b) = Some b'" "b_lastSeen b' = now"
      using track_props(4) [OF inv tr b] by blast
    have "b_id b \<in> fst ` set (activeBlobs s')"
      using b'(1) by (metis domI dom_map_of_conv_image_fst)
    with 1 b' show "b_lastSeen b = now \<and> \<not> now - b_lastSeen b > BLOB_TIMEOUT \<and>
           b_id b \<in> fst ` set (activeBlobs s') \<and>
           (\<exists>b'. map_of (activeBlobs s') (b_id b) = Some b' \<and> b_lastSeen b' = now)"
      by (simp add: BLOB_TIMEOUT_def)
  qed
  then show ?thesis by (simp add: BLOB_TIMEOUT_def)
qed

theorem C10_witness:
  "run newCVProcessor [] = Inr newCVProcessor \<and>
   processFrame newCVProcessor (Some [contourAt 10 10 400]) defaultSettings (Fin 1) 0 =
     Inr ([newEntity 1 0 (toCandidate (Fin 1) (contourAt 10 10 400))],
          \<lparr>nextBlobId = 2, activeBlobs = [(1, newEntity 1 0 (toCandidate (Fin 1) (contourAt 10 10 400)))]\<rparr>) \<and>
   b_lastSeen (newEntity 1 0 (toCandidate (Fin 1) (contourAt 10 10 400))) = 0 \<and>
   b_id (newEntity 1 0 (toCandidate (Fin 1) (contourAt 10 10 400)))
     \<in> fst ` set (activeBlobs \<lparr>nextBlobId = 2, activeBlobs = [(1, newEntity 1 0 (toCandidate (Fin 1) (contourAt 10 10 400)))]\<rparr>)"
proof -
  have r: "run newCVProcessor [] = Inr newCVProcessor" by simp
  have p: "processFrame newCVProcessor (Some [contourAt 10 10 400]) defaultSettings (Fin 1) 0 =
     Inr ([newEntity 1 0 (toCandidate (Fin 1) (contourAt 10 10 400))],
          \<lparr>nextBlobId = 2, activeBlobs = [(1, newEntity 1 0 (toCandidate (Fin 1) (contourAt 10 10 400)))]\<rparr>)"
    by (simp add: processFrame_def track_def trackBlob_def newCVProcessor_def defaultSettings_def
          contourAt_def realArea_def js_gt_def js_max_def MAX_TRACKING_DISTANCE_BASE_def
          BLOB_TIMEOUT_def)
  from C10_returned_blobs_stay_active [OF r p] r p show ?thesis by simp
qed

end
